theory Spec2Isabelle
  imports Main "HOL-Library.AList" "HOL-Library.Word"
begin

section \<open>JavaScript values\<close>

text \<open>
  The values that flow through \<^verbatim>\<open>src/index.js\<close>: the arguments of \<^verbatim>\<open>run\<close> and
  \<^verbatim>\<open>pipe\<close>, the context, the pipe value, the results of handlers and the report.
  Numbers are the integers from \<open>- 2 ^ 53\<close> to \<open>2 ^ 53 - 1\<close>, which JavaScript
  holds exactly and prints in decimal digits (no fractions, no NaN, no larger
  numbers); objects are plain records of own properties in insertion order.
\<close>

datatype jsval =
    JUndefined
  | JNull
  | JBool bool
  | JNum "54 word"
  | JStr string
  | JArr "jsval list"
  | JObj "(string \<times> jsval) list"

text \<open>JavaScript truthiness: what \<^verbatim>\<open>!x\<close> and \<^verbatim>\<open>if (x)\<close> test.\<close>

fun truthy :: "jsval \<Rightarrow> bool" where
  "truthy JUndefined = False"
| "truthy JNull = False"
| "truthy (JBool b) = b"
| "truthy (JNum i) = (i \<noteq> 0)"
| "truthy (JStr s) = (s \<noteq> [])"
| "truthy (JArr xs) = True"
| "truthy (JObj kvs) = True"

text \<open>\<^verbatim>\<open>typeof x === 'string'\<close>, \<^verbatim>\<open>typeof x === 'number'\<close>, \<^verbatim>\<open>Array.isArray(x)\<close>.\<close>

fun is_string :: "jsval \<Rightarrow> bool" where
  "is_string (JStr s) = True"
| "is_string _ = False"

fun is_number :: "jsval \<Rightarrow> bool" where
  "is_number (JNum i) = True"
| "is_number _ = False"

fun isArray :: "jsval \<Rightarrow> bool" where
  "isArray (JArr xs) = True"
| "isArray _ = False"

text \<open>\<^verbatim>\<open>Array.prototype.join\<close> on strings.\<close>

fun join :: "string \<Rightarrow> string list \<Rightarrow> string" where
  "join sep [] = []"
| "join sep [x] = x"
| "join sep (x # y # ys) = x @ sep @ join sep (y # ys)"

text \<open>The decimal form of a natural number.\<close>

fun dec_nat :: "nat \<Rightarrow> string" where
  "dec_nat n =
     (if n < 10 then [''0123456789'' ! n]
      else dec_nat (n div 10) @ [''0123456789'' ! (n mod 10)])"

declare dec_nat.simps [simp del]

text \<open>
  The string a value turns into when it is used as a property key
  (\<^verbatim>\<open>this.tasks[task]\<close>) or concatenated to a string (\<^verbatim>\<open>'pre-' + task\<close>).
\<close>

fun to_string :: "jsval \<Rightarrow> string" where
  "to_string JUndefined = ''undefined''"
| "to_string JNull = ''null''"
| "to_string (JBool b) = (if b then ''true'' else ''false'')"
| "to_string (JNum i) =
     (if sint i < 0 then CHR ''-'' # dec_nat (nat (- sint i)) else dec_nat (nat (sint i)))"
| "to_string (JStr s) = s"
| "to_string (JArr xs) =
     join '','' (map (\<lambda>x. if x = JUndefined \<or> x = JNull then [] else to_string x) xs)"
| "to_string (JObj kvs) = ''[object Object]''"

section \<open>Errors and outcomes\<close>

text \<open>
  What a handler invocation can fail with: the timeout of the invocation, or the
  handler's own failure, which is passed on as it is.
\<close>

datatype failure = Timeout | Thrown jsval

text \<open>
  What \<^verbatim>\<open>run\<close>, \<^verbatim>\<open>pipe\<close> and \<^verbatim>\<open>registerTask\<close> can fail with: an \<^verbatim>\<open>Error\<close>
  object they create themselves, with its message; the \<^verbatim>\<open>TypeError\<close> the language
  raises when \<^verbatim>\<open>for ... of\<close> is given a value that is not iterable or when a
  method that does not exist is called; or a failure of a handler invocation.
\<close>

datatype jserror = Error string | TypeError | Failed failure

text \<open>
  A call of \<^verbatim>\<open>run\<close> or \<^verbatim>\<open>pipe\<close> either throws before it returns a promise, or
  returns a promise that is rejected or resolved.
\<close>

datatype 'a outcome = Throws jserror | Rejects jserror | Resolves 'a

definition unknown_task_msg :: "string \<Rightarrow> string" where
  "unknown_task_msg name = ''Task name '' @ name @ '' not defined!''"

definition not_allowed_msg :: "string \<Rightarrow> string list \<Rightarrow> string" where
  "not_allowed_msg name known =
     ''Task name '' @ name @ '' not defined!'' @ [CHR 0x0A] @ ''Allowed tasks are: ''
       @ join '', '' known"

definition no_tasks_msg :: string where
  "no_tasks_msg = ''Set allowedTasks option or use tasks argument!''"

definition invalid_pipe_msg :: string where
  "invalid_pipe_msg = ''Pipe error. Returned data aren't a valid pipe data object''"

section \<open>The registry\<close>

text \<open>
  \<^verbatim>\<open>this.tasks\<close> is an object used as a dictionary from names to arrays of
  handlers: an association list of its own properties in the order they were
  created. \<^verbatim>\<open>this.allowedTasks\<close> is \<^verbatim>\<open>null\<close> or an array. Handlers are of an
  arbitrary type \<open>'h\<close>: the class stores them and hands them to \<^verbatim>\<open>co.series\<close> and
  \<^verbatim>\<open>co.pipe\<close>, nothing else. The \<^verbatim>\<open>debug\<close> flag only switches logging and is left
  out.
\<close>

record 'h cotasks =
  tasks :: "(string \<times> 'h list) list"
  allowedTasks :: "jsval list option"

text \<open>The constructor without a tasks directory: no tasks, no allow-list.\<close>

definition constructor :: "'h cotasks" where
  "constructor = \<lparr>tasks = [], allowedTasks = None\<rparr>"

text \<open>
  \<^verbatim>\<open>this.tasks\<close> starts as \<^verbatim>\<open>{}\<close>, so besides its own properties it has the
  members it inherits from \<^verbatim>\<open>Object.prototype\<close>: eleven functions, listed with
  their \<^verbatim>\<open>length\<close>, and \<^verbatim>\<open>__proto__\<close>, which is \<^verbatim>\<open>Object.prototype\<close> itself and
  has no \<^verbatim>\<open>length\<close>. None of them has a method \<^verbatim>\<open>push\<close>.
\<close>

definition proto_members :: "(string \<times> nat option) list" where
  "proto_members =
     [(''constructor'', Some 1), (''__defineGetter__'', Some 2), (''__defineSetter__'', Some 2),
      (''hasOwnProperty'', Some 1), (''__lookupGetter__'', Some 1), (''__lookupSetter__'', Some 1),
      (''isPrototypeOf'', Some 1), (''propertyIsEnumerable'', Some 1), (''toString'', Some 0),
      (''valueOf'', Some 0), (''__proto__'', None), (''toLocaleString'', Some 0)]"

text \<open>
  What \<^verbatim>\<open>this.tasks[key]\<close> evaluates to when it is not \<^verbatim>\<open>undefined\<close>: the array of
  handlers of an own property, or else the inherited member of that name. Both
  are truthy, and \<^verbatim>\<open>key in this.tasks\<close> holds for both.
\<close>

datatype 'h member = Handlers "'h list" | Inherited string

definition get_task :: "(string \<times> 'h list) list \<Rightarrow> string \<Rightarrow> 'h member option" where
  "get_task ts key =
     (case map_of ts key of
        Some hs \<Rightarrow> Some (Handlers hs)
      | None \<Rightarrow> (case map_of proto_members key of
                   Some len \<Rightarrow> Some (Inherited key)
                 | None \<Rightarrow> None))"

text \<open>The truthiness of \<^verbatim>\<open>this.tasks[key].length\<close>.\<close>

fun has_length :: "'h member \<Rightarrow> bool" where
  "has_length (Handlers hs) = (hs \<noteq> [])"
| "has_length (Inherited name) =
     (case map_of proto_members name of Some (Some n) \<Rightarrow> n \<noteq> 0 | _ \<Rightarrow> False)"

text \<open>
  \<^verbatim>\<open>Object.keys\<close>, the own keys: the keys that are array indices come first, in ascending numeric
  order, then the other keys in the order of their creation.
\<close>

definition is_digit :: "char \<Rightarrow> bool" where
  "is_digit c = (c \<in> set ''0123456789'')"

definition index_value :: "string \<Rightarrow> nat" where
  "index_value s = foldl (\<lambda>a c. 10 * a + (of_char c - 48)) 0 s"

definition is_array_index :: "string \<Rightarrow> bool" where
  "is_array_index s =
     (s \<noteq> [] \<and> list_all is_digit s \<and> (s = ''0'' \<or> hd s \<noteq> CHR ''0'')
      \<and> index_value s < 2 ^ 32 - 1)"

definition object_keys :: "(string \<times> 'v) list \<Rightarrow> string list" where
  "object_keys kvs =
     sort_key index_value (filter is_array_index (map fst kvs))
       @ filter (\<lambda>k. \<not> is_array_index k) (map fst kvs)"

text \<open>
  \<^verbatim>\<open>registerTask(name, fn)\<close>: a name for which \<^verbatim>\<open>this.tasks[name]\<close> is undefined
  is refused when an allow-list is set and gets a new empty list otherwise;
  then \<^verbatim>\<open>this.tasks[name].push(fn)\<close> puts the handler at the end of the name's
  list, or throws a \<^verbatim>\<open>TypeError\<close> when \<^verbatim>\<open>this.tasks[name]\<close> is an inherited member.
\<close>

definition push :: "string \<Rightarrow> 'h \<Rightarrow> (string \<times> 'h list) list \<Rightarrow> jserror + (string \<times> 'h list) list" where
  "push name fn ts =
     (case get_task ts name of
        Some (Handlers hs) \<Rightarrow> Inr (AList.update name (hs @ [fn]) ts)
      | _ \<Rightarrow> Inl TypeError)"

definition registerTask :: "'h cotasks \<Rightarrow> string \<Rightarrow> 'h \<Rightarrow> jserror + 'h cotasks" where
  "registerTask self name fn =
     (case (if get_task (tasks self) name = None
            then (if allowedTasks self \<noteq> None
                  then Inl (Error (not_allowed_msg name (object_keys (tasks self))))
                  else Inr (AList.update name [] (tasks self)))
            else Inr (tasks self)) of
        Inl e \<Rightarrow> Inl e
      | Inr ts \<Rightarrow>
          (case push name fn ts of
             Inl e \<Rightarrow> Inl e
           | Inr ts' \<Rightarrow> Inr (self\<lparr>tasks := ts'\<rparr>)))"

text \<open>
  \<^verbatim>\<open>defineTasks(tasks, regPreTasks, regPostTasks)\<close>: one round of the loop, then
  the loop over the array.
\<close>

definition define_step :: "bool \<Rightarrow> bool \<Rightarrow> 'h cotasks \<Rightarrow> jsval \<Rightarrow> 'h cotasks" where
  "define_step regPreTasks regPostTasks self task =
     (let ts1 = (if regPreTasks
                 then AList.update (''pre-'' @ to_string task) [] (tasks self)
                 else tasks self);
          ts2 = (if get_task ts1 (to_string task) = None
                 then AList.update (to_string task) [] ts1
                 else ts1);
          allowed = (case allowedTasks self of None \<Rightarrow> [task] | Some ns \<Rightarrow> ns @ [task]);
          ts3 = (if regPostTasks
                 then AList.update (''post-'' @ to_string task) [] ts2
                 else ts2)
      in \<lparr>tasks = ts3, allowedTasks = Some allowed\<rparr>)"

definition defineTasks :: "'h cotasks \<Rightarrow> jsval list \<Rightarrow> bool \<Rightarrow> bool \<Rightarrow> 'h cotasks" where
  "defineTasks self names regPreTasks regPostTasks =
     foldl (define_step regPreTasks regPostTasks) (self\<lparr>allowedTasks := Some []\<rparr>) names"

section \<open>Running tasks\<close>

text \<open>
  \<^verbatim>\<open>co.series\<close> and \<^verbatim>\<open>co.pipe\<close> belong to the package \<^verbatim>\<open>co-utils\<close>, which is
  not part of this repository: \<^verbatim>\<open>run\<close> and \<^verbatim>\<open>pipe\<close> take them as parameters.
  Such a function gets an array of handlers, the context, the argument and the
  timeout; handlers may have effects, so it also gets the state \<open>'w\<close> of the
  world around the registry and returns the new one, with the value the promise
  is resolved with or the failure it is rejected with. Every call of the
  library settles: a handler that neither returns nor fails nor runs into its
  timeout is outside the model. The registry itself is not changed while tasks
  run.

  The code hands \<^verbatim>\<open>this.tasks[key]\<close> to the library, and this can be an inherited
  member instead of an array. What the library does then is a second parameter,
  which gets the name of the member.
\<close>

type_synonym ('h, 'w) co_fn =
  "'h list \<Rightarrow> jsval \<Rightarrow> jsval \<Rightarrow> jsval \<Rightarrow> 'w \<Rightarrow> (failure + jsval) \<times> 'w"

type_synonym 'w inherited_fn =
  "string \<Rightarrow> jsval \<Rightarrow> jsval \<Rightarrow> jsval \<Rightarrow> 'w \<Rightarrow> (failure + jsval) \<times> 'w"

definition call_lib ::
  "('h, 'w) co_fn \<Rightarrow> 'w inherited_fn \<Rightarrow> 'h member \<Rightarrow> jsval \<Rightarrow> jsval \<Rightarrow> jsval \<Rightarrow> 'w
     \<Rightarrow> (failure + jsval) \<times> 'w" where
  "call_lib lib lib_inh m ctx arg timeout w =
     (case m of
        Handlers hs \<Rightarrow> lib hs ctx arg timeout w
      | Inherited name \<Rightarrow> lib_inh name ctx arg timeout w)"

text \<open>The entry \<^verbatim>\<open>{task: ..., results: ...}\<close> pushed to the report.\<close>

definition entry :: "jsval \<Rightarrow> jsval \<Rightarrow> jsval" where
  "entry label result = JObj [(''task'', label), (''results'', result)]"

text \<open>
  One of the three blocks of the loop body of \<^verbatim>\<open>run\<close>: when
  \<^verbatim>\<open>this.tasks[key] && this.tasks[key].length\<close> is truthy, \<^verbatim>\<open>this.tasks[key]\<close> is
  given to \<^verbatim>\<open>co.series\<close> and an entry is pushed to \<open>res\<close>.
\<close>

definition run_phase ::
  "('h, 'w) co_fn \<Rightarrow> 'w inherited_fn \<Rightarrow> (string \<times> 'h list) list \<Rightarrow> string \<Rightarrow> jsval
     \<Rightarrow> jsval \<Rightarrow> jsval \<Rightarrow> jsval \<Rightarrow> jsval list \<Rightarrow> 'w \<Rightarrow> (jserror + jsval list) \<times> 'w" where
  "run_phase series series_inh ts key label ctx args timeout res w =
     (case get_task ts key of
        None \<Rightarrow> (Inr res, w)
      | Some m \<Rightarrow>
          (if has_length m
           then (case call_lib series series_inh m ctx args timeout w of
                   (Inl f, w') \<Rightarrow> (Inl (Failed f), w')
                 | (Inr result, w') \<Rightarrow> (Inr (res @ [entry label result]), w'))
           else (Inr res, w)))"

fun run_loop ::
  "('h, 'w) co_fn \<Rightarrow> 'w inherited_fn \<Rightarrow> (string \<times> 'h list) list \<Rightarrow> jsval list \<Rightarrow> jsval
     \<Rightarrow> jsval \<Rightarrow> jsval \<Rightarrow> jsval list \<Rightarrow> 'w \<Rightarrow> (jserror + jsval list) \<times> 'w" where
  "run_loop series series_inh ts [] ctx args timeout res w = (Inr res, w)"
| "run_loop series series_inh ts (task # rest) ctx args timeout res w =
     (case get_task ts (to_string task) of
        None \<Rightarrow> (Inl (Error (unknown_task_msg (to_string task))), w)
      | Some main \<Rightarrow>
          (case run_phase series series_inh ts (''pre-'' @ to_string task)
                  (JStr (''pre-'' @ to_string task)) ctx args timeout res w of
             (Inl e, w1) \<Rightarrow> (Inl e, w1)
           | (Inr res1, w1) \<Rightarrow>
               (case run_phase series series_inh ts (to_string task) task ctx args timeout res1 w1 of
                  (Inl e, w2) \<Rightarrow> (Inl e, w2)
                | (Inr res2, w2) \<Rightarrow>
                    (case run_phase series series_inh ts (''post-'' @ to_string task)
                            (JStr (''post-'' @ to_string task)) ctx args timeout res2 w2 of
                       (Inl e, w3) \<Rightarrow> (Inl e, w3)
                     | (Inr res3, w3) \<Rightarrow> run_loop series series_inh ts rest ctx args timeout res3 w3))))"

text \<open>
  \<^verbatim>\<open>run(tasks, ctx, args, timeout)\<close>. A falsy first argument is replaced by
  \<^verbatim>\<open>this.allowedTasks\<close>, a string by the array that holds it. The generator
  runs inside \<^verbatim>\<open>co\<close>, so whatever it throws rejects the promise; \<^verbatim>\<open>for ... of\<close>
  throws a \<^verbatim>\<open>TypeError\<close> on anything that is not an array here (\<^verbatim>\<open>null\<close>, a
  number, \<^verbatim>\<open>true\<close>, a plain object).
\<close>

definition run ::
  "('h, 'w) co_fn \<Rightarrow> 'w inherited_fn \<Rightarrow> 'h cotasks \<Rightarrow> jsval \<Rightarrow> jsval \<Rightarrow> jsval \<Rightarrow> jsval \<Rightarrow> 'w
     \<Rightarrow> jsval outcome \<times> 'w" where
  "run series series_inh self task_arg ctx args timeout w =
     (let tasks1 =
            (if \<not> truthy task_arg
             then (case allowedTasks self of None \<Rightarrow> JNull | Some ns \<Rightarrow> JArr ns)
             else if is_string task_arg then JArr [task_arg]
             else task_arg)
      in case tasks1 of
           JArr names \<Rightarrow>
             (case run_loop series series_inh (tasks self) names ctx args timeout [] w of
                (Inl e, w') \<Rightarrow> (Rejects e, w')
              | (Inr res, w') \<Rightarrow> (Resolves (JArr res), w'))
         | _ \<Rightarrow> (Rejects TypeError, w))"

section \<open>Piping a value through tasks\<close>

text \<open>
  One of the three blocks of the loop body of \<^verbatim>\<open>pipe\<close>: when
  \<^verbatim>\<open>this.tasks[key] && this.tasks[key].length\<close> is truthy, \<^verbatim>\<open>this.tasks[key]\<close> is
  given to \<^verbatim>\<open>co.pipe\<close> with the pipe value, and a falsy result is an error.
\<close>

definition pipe_phase ::
  "('h, 'w) co_fn \<Rightarrow> 'w inherited_fn \<Rightarrow> (string \<times> 'h list) list \<Rightarrow> string \<Rightarrow> jsval
     \<Rightarrow> jsval \<Rightarrow> jsval \<Rightarrow> 'w \<Rightarrow> (jserror + jsval) \<times> 'w" where
  "pipe_phase copipe copipe_inh ts key ctx pipeArg timeout w =
     (case get_task ts key of
        None \<Rightarrow> (Inr pipeArg, w)
      | Some m \<Rightarrow>
          (if has_length m
           then (case call_lib copipe copipe_inh m ctx pipeArg timeout w of
                   (Inl f, w') \<Rightarrow> (Inl (Failed f), w')
                 | (Inr v, w') \<Rightarrow>
                     (if \<not> truthy v then (Inl (Error invalid_pipe_msg), w')
                      else (Inr v, w')))
           else (Inr pipeArg, w)))"

fun pipe_loop ::
  "('h, 'w) co_fn \<Rightarrow> 'w inherited_fn \<Rightarrow> (string \<times> 'h list) list \<Rightarrow> jsval list \<Rightarrow> jsval
     \<Rightarrow> jsval \<Rightarrow> jsval \<Rightarrow> 'w \<Rightarrow> (jserror + jsval) \<times> 'w" where
  "pipe_loop copipe copipe_inh ts [] ctx pipeArg timeout w = (Inr pipeArg, w)"
| "pipe_loop copipe copipe_inh ts (task # rest) ctx pipeArg timeout w =
     (case get_task ts (to_string task) of
        None \<Rightarrow> (Inl (Error (unknown_task_msg (to_string task))), w)
      | Some main \<Rightarrow>
          (case pipe_phase copipe copipe_inh ts (''pre-'' @ to_string task) ctx pipeArg timeout w of
             (Inl e, w1) \<Rightarrow> (Inl e, w1)
           | (Inr p1, w1) \<Rightarrow>
               (case pipe_phase copipe copipe_inh ts (to_string task) ctx p1 timeout w1 of
                  (Inl e, w2) \<Rightarrow> (Inl e, w2)
                | (Inr p2, w2) \<Rightarrow>
                    (case pipe_phase copipe copipe_inh ts (''post-'' @ to_string task) ctx p2 timeout w2 of
                       (Inl e, w3) \<Rightarrow> (Inl e, w3)
                     | (Inr p3, w3) \<Rightarrow> pipe_loop copipe copipe_inh ts rest ctx p3 timeout w3))))"

text \<open>The generator of \<^verbatim>\<open>pipe\<close> inside \<^verbatim>\<open>co\<close>: the promise the call returns.\<close>

definition pipe_exec ::
  "('h, 'w) co_fn \<Rightarrow> 'w inherited_fn \<Rightarrow> (string \<times> 'h list) list \<Rightarrow> jsval list \<Rightarrow> jsval
     \<Rightarrow> jsval \<Rightarrow> jsval \<Rightarrow> 'w \<Rightarrow> jsval outcome \<times> 'w" where
  "pipe_exec copipe copipe_inh ts names ctx pipeArg timeout w =
     (case pipe_loop copipe copipe_inh ts names ctx pipeArg timeout w of
        (Inl e, w') \<Rightarrow> (Rejects e, w')
      | (Inr v, w') \<Rightarrow> (Resolves v, w'))"

text \<open>
  \<^verbatim>\<open>pipe(tasks, ctx, pipeArg, timeout)\<close> with its shifting of arguments: a string
  becomes a one-element array; a first argument that is not an array is taken
  as the context and the allow-list becomes the tasks; a pipe value that is a
  number or undefined is replaced by the context, and the context by \<^verbatim>\<open>null\<close>.
  Without tasks the call throws before any promise exists.
\<close>

definition pipe ::
  "('h, 'w) co_fn \<Rightarrow> 'w inherited_fn \<Rightarrow> 'h cotasks \<Rightarrow> jsval \<Rightarrow> jsval \<Rightarrow> jsval \<Rightarrow> jsval \<Rightarrow> 'w
     \<Rightarrow> jsval outcome \<times> 'w" where
  "pipe copipe copipe_inh self task_arg ctx pipeArg timeout w =
     (let tasks1 = (if is_string task_arg then JArr [task_arg] else task_arg);
          shift = (\<not> truthy tasks1 \<or> \<not> isArray tasks1);
          timeout2 = (if shift then pipeArg else timeout);
          pipeArg2 = (if shift then ctx else pipeArg);
          ctx2 = (if shift then tasks1 else ctx);
          tasks2 = (if shift
                    then (case allowedTasks self of None \<Rightarrow> JNull | Some ns \<Rightarrow> JArr ns)
                    else tasks1);
          rebind = (is_number pipeArg2 \<or> pipeArg2 = JUndefined);
          pipeArg3 = (if rebind then ctx2 else pipeArg2);
          ctx3 = (if rebind then JNull else ctx2)
      in if \<not> truthy tasks2 then (Throws (Error no_tasks_msg), w)
         else (case tasks2 of
                 JArr names \<Rightarrow> pipe_exec copipe copipe_inh (tasks self) names ctx3 pipeArg3 timeout2 w
               | _ \<Rightarrow> (Rejects TypeError, w)))"

section \<open>The library functions and the order of execution, from the specification\<close>

text \<open>
  Modelled from the spec: \<^verbatim>\<open>co.series\<close> of the package \<^verbatim>\<open>co-utils\<close>, which is not
  under \<^verbatim>\<open>src/\<close>. Section 4.4: the handlers are invoked independently, in list
  order, each with the same context and arguments; their results are collected
  into an array; the first failure (a timeout or the handler's own) ends the
  call. \<open>invoke\<close> is one guarded invocation of a handler (section 4.3).
\<close>

type_synonym ('h, 'w) invoke_fn =
  "'h \<Rightarrow> jsval \<Rightarrow> jsval \<Rightarrow> jsval \<Rightarrow> 'w \<Rightarrow> (failure + jsval) \<times> 'w"

fun series_loop ::
  "('h, 'w) invoke_fn \<Rightarrow> 'h list \<Rightarrow> jsval \<Rightarrow> jsval \<Rightarrow> jsval \<Rightarrow> jsval list \<Rightarrow> 'w
     \<Rightarrow> (failure + jsval list) \<times> 'w" where
  "series_loop invoke [] ctx args timeout acc w = (Inr acc, w)"
| "series_loop invoke (h # hs) ctx args timeout acc w =
     (case invoke h ctx args timeout w of
        (Inl f, w') \<Rightarrow> (Inl f, w')
      | (Inr r, w') \<Rightarrow> series_loop invoke hs ctx args timeout (acc @ [r]) w')"

definition co_series :: "('h, 'w) invoke_fn \<Rightarrow> ('h, 'w) co_fn" where
  "co_series invoke hs ctx args timeout w =
     (case series_loop invoke hs ctx args timeout [] w of
        (Inl f, w') \<Rightarrow> (Inl f, w')
      | (Inr rs, w') \<Rightarrow> (Inr (JArr rs), w'))"

text \<open>
  Modelled from the spec: \<^verbatim>\<open>co.pipe\<close> of the package \<^verbatim>\<open>co-utils\<close>, which is not
  under \<^verbatim>\<open>src/\<close>. Section 4.5: the handlers of a phase are chained, each one
  receives the context and the pipe value and produces the next pipe value; a
  failure ends the call.
\<close>

fun co_pipe :: "('h, 'w) invoke_fn \<Rightarrow> ('h, 'w) co_fn" where
  "co_pipe invoke [] ctx pipeArg timeout w = (Inr pipeArg, w)"
| "co_pipe invoke (h # hs) ctx pipeArg timeout w =
     (case invoke h ctx pipeArg timeout w of
        (Inl f, w') \<Rightarrow> (Inl f, w')
      | (Inr v, w') \<Rightarrow> co_pipe invoke hs ctx v timeout w')"

text \<open>
  The order of execution in the words of the specification (sections 4.1, 4.2
  and 5): \<open>handlersFor\<close> is the list of a name, empty when the name is not
  registered; a task has the phases pre, main and post, in this order; the
  schedule of a call is the phases of the requested tasks, in the order of the
  request, without the phases that have no handler.
\<close>

definition handlersFor :: "(string \<times> 'h list) list \<Rightarrow> string \<Rightarrow> 'h list" where
  "handlersFor ts name = (case map_of ts name of None \<Rightarrow> [] | Some hs \<Rightarrow> hs)"

definition isKnown :: "(string \<times> 'h list) list \<Rightarrow> jsval \<Rightarrow> bool" where
  "isKnown ts task = (map_of ts (to_string task) \<noteq> None)"

definition phases_of :: "(string \<times> 'h list) list \<Rightarrow> jsval \<Rightarrow> (jsval \<times> 'h list) list" where
  "phases_of ts task =
     [(JStr (''pre-'' @ to_string task), handlersFor ts (''pre-'' @ to_string task)),
      (task, handlersFor ts (to_string task)),
      (JStr (''post-'' @ to_string task), handlersFor ts (''post-'' @ to_string task))]"

definition schedule :: "(string \<times> 'h list) list \<Rightarrow> jsval list \<Rightarrow> (jsval \<times> 'h list) list" where
  "schedule ts names = filter (\<lambda>ph. snd ph \<noteq> []) (concat (map (phases_of ts) names))"

text \<open>
  Series execution of a schedule (section 4.4): one call of the library per
  phase, one entry of the report per phase, the first failure ends the call.
\<close>

fun series_sched ::
  "('h, 'w) co_fn \<Rightarrow> (jsval \<times> 'h list) list \<Rightarrow> jsval \<Rightarrow> jsval \<Rightarrow> jsval \<Rightarrow> jsval list \<Rightarrow> 'w
     \<Rightarrow> (jserror + jsval list) \<times> 'w" where
  "series_sched series [] ctx args timeout res w = (Inr res, w)"
| "series_sched series (ph # rest) ctx args timeout res w =
     (case series (snd ph) ctx args timeout w of
        (Inl f, w') \<Rightarrow> (Inl (Failed f), w')
      | (Inr result, w') \<Rightarrow>
          series_sched series rest ctx args timeout (res @ [entry (fst ph) result]) w')"

text \<open>
  Pipe execution of a schedule (section 4.5): the pipe value goes through the
  phases one after the other, and a falsy value after a phase ends the call.
\<close>

fun pipe_sched ::
  "('h, 'w) co_fn \<Rightarrow> (jsval \<times> 'h list) list \<Rightarrow> jsval \<Rightarrow> jsval \<Rightarrow> jsval \<Rightarrow> 'w
     \<Rightarrow> (jserror + jsval) \<times> 'w" where
  "pipe_sched copipe [] ctx pipeArg timeout w = (Inr pipeArg, w)"
| "pipe_sched copipe (ph # rest) ctx pipeArg timeout w =
     (case copipe (snd ph) ctx pipeArg timeout w of
        (Inl f, w') \<Rightarrow> (Inl (Failed f), w')
      | (Inr v, w') \<Rightarrow>
          (if truthy v then pipe_sched copipe rest ctx v timeout w'
           else (Inl (Error invalid_pipe_msg), w')))"

text \<open>
  The report of a schedule from the results of all its handlers in the order of
  their invocation (section 3): one entry per phase, with as many results as
  the phase has handlers.
\<close>

fun report :: "(jsval \<times> 'h list) list \<Rightarrow> jsval list \<Rightarrow> jsval list" where
  "report [] rs = []"
| "report (ph # rest) rs =
     entry (fst ph) (JArr (take (length (snd ph)) rs)) # report rest (drop (length (snd ph)) rs)"

text \<open>
  A handler for concrete runs: handlers are numbers, the world is the list of
  the invocations made so far, and handler \<open>h\<close> resolves to the array of
  \<open>h\<close>, its context and its argument.
\<close>

definition echo :: "(nat, (nat \<times> jsval \<times> jsval) list) invoke_fn" where
  "echo h ctx arg timeout w = (Inr (JArr [JNum (of_nat h), ctx, arg]), w @ [(h, ctx, arg)])"

text \<open>The same, but handler \<open>0\<close> resolves to \<^verbatim>\<open>null\<close>.\<close>

definition echo_null :: "(nat, (nat \<times> jsval \<times> jsval) list) invoke_fn" where
  "echo_null h ctx arg timeout w =
     (Inr (if h = 0 then JNull else JArr [JNum (of_nat h), ctx, arg]), w @ [(h, ctx, arg)])"

text \<open>A library that fails when it is handed an inherited member, for concrete runs.\<close>

definition refuse :: "'w inherited_fn" where
  "refuse name ctx arg timeout w = (Inl (Thrown (JStr name)), w)"

section \<open>Properties of the registry\<close>

lemma set_object_keys: "set (object_keys kvs) = fst ` set kvs"
  by (auto simp: object_keys_def)

text \<open>A phase name is never the name of an inherited member.\<close>

lemma proto_phase_names:
  "map_of proto_members (''pre-'' @ x) = None"
  "map_of proto_members (''post-'' @ x) = None"
  by (simp_all add: proto_members_def)

lemma get_task_own: "map_of ts key = Some hs \<Longrightarrow> get_task ts key = Some (Handlers hs)"
  by (simp add: get_task_def)

lemma get_task_not_inherited:
  "map_of proto_members key = None \<Longrightarrow> get_task ts key = map_option Handlers (map_of ts key)"
  by (simp add: get_task_def split: option.splits)

lemma get_task_None:
  "get_task ts key = None \<longleftrightarrow> map_of ts key = None \<and> map_of proto_members key = None"
  by (simp add: get_task_def split: option.splits)

lemma registerTask_cases:
  "registerTask self name fn =
     (case map_of (tasks self) name of
        None \<Rightarrow> if map_of proto_members name \<noteq> None then Inl TypeError
                else if allowedTasks self \<noteq> None
                then Inl (Error (not_allowed_msg name (object_keys (tasks self))))
                else Inr (self\<lparr>tasks := AList.update name [fn] (tasks self)\<rparr>)
      | Some hs \<Rightarrow> Inr (self\<lparr>tasks := AList.update name (hs @ [fn]) (tasks self)\<rparr>))"
  by (auto simp: registerTask_def push_def get_task_def update_conv' split: option.splits)

lemma foldl_define_snoc:
  "defineTasks self (names @ [task]) regPre regPost =
     define_step regPre regPost (defineTasks self names regPre regPost) task"
  by (simp add: defineTasks_def)

lemma map_of_define_step:
  "map_of (tasks (define_step regPre regPost self task)) k =
     (if (regPre \<and> k = ''pre-'' @ to_string task) \<or> (regPost \<and> k = ''post-'' @ to_string task)
      then Some []
      else if k = to_string task
      then (case map_of (tasks self) k of
              None \<Rightarrow> if map_of proto_members k = None then Some [] else None
            | Some hs \<Rightarrow> Some hs)
      else map_of (tasks self) k)"
  by (auto simp: define_step_def Let_def update_conv' get_task_None split: option.splits)

lemma define_combine:
  "(if a1 then Some []
    else if b1
    then (case (if a then Some []
                else if b then (case m of None \<Rightarrow> d | Some hs \<Rightarrow> Some hs) else m) of
            None \<Rightarrow> d | Some hs \<Rightarrow> Some hs)
    else (if a then Some []
          else if b then (case m of None \<Rightarrow> d | Some hs \<Rightarrow> Some hs) else m))
   = (if a \<or> a1 then Some []
      else if b \<or> b1 then (case m of None \<Rightarrow> d | Some hs \<Rightarrow> Some (hs :: 'a list))
      else m)"
  by (cases m; cases d) auto

lemma in_image_snoc: "k \<in> f ` set (xs @ [x]) \<longleftrightarrow> k \<in> f ` set xs \<or> k = f x"
  by auto

text \<open>
  What \<^verbatim>\<open>defineTasks\<close> leaves under a key: the empty list when the key is a
  phase name the call writes; otherwise, for a name of the call, the list it had
  or a new empty one (none when the name is that of an inherited member);
  otherwise what was there.
\<close>

lemma map_of_defineTasks:
  "map_of (tasks (defineTasks self names regPre regPost)) k =
     (if (regPre \<and> k \<in> (\<lambda>n. ''pre-'' @ to_string n) ` set names)
         \<or> (regPost \<and> k \<in> (\<lambda>n. ''post-'' @ to_string n) ` set names)
      then Some []
      else if k \<in> to_string ` set names
      then (case map_of (tasks self) k of
              None \<Rightarrow> if map_of proto_members k = None then Some [] else None
            | Some hs \<Rightarrow> Some hs)
      else map_of (tasks self) k)"
proof (induction names rule: rev_induct)
  case Nil
  show ?case by (simp add: defineTasks_def)
next
  case (snoc task names)
  have eq: "((regPre \<and> (k \<in> (\<lambda>n. ''pre-'' @ to_string n) ` set names \<or> k = ''pre-'' @ to_string task))
         \<or> (regPost \<and> (k \<in> (\<lambda>n. ''post-'' @ to_string n) ` set names \<or> k = ''post-'' @ to_string task)))
       = (((regPre \<and> k \<in> (\<lambda>n. ''pre-'' @ to_string n) ` set names)
            \<or> (regPost \<and> k \<in> (\<lambda>n. ''post-'' @ to_string n) ` set names))
          \<or> ((regPre \<and> k = ''pre-'' @ to_string task) \<or> (regPost \<and> k = ''post-'' @ to_string task)))"
    by blast
  show ?case
    by (simp only: foldl_define_snoc map_of_define_step snoc.IH define_combine in_image_snoc eq)
qed

lemma allowed_define_step:
  "allowedTasks self = Some ns \<Longrightarrow>
     allowedTasks (define_step regPre regPost self task) = Some (ns @ [task])"
  by (simp add: define_step_def Let_def)

lemma allowedTasks_defineTasks:
  "allowedTasks (defineTasks self names regPre regPost) = Some names"
proof (induction names rule: rev_induct)
  case Nil
  show ?case by (simp add: defineTasks_def)
next
  case (snoc task names)
  then show ?case
    unfolding foldl_define_snoc by (simp add: allowed_define_step)
qed

text \<open>Concrete registries used below.\<close>

lemma define_a:
  "(defineTasks constructor [JStr ''a''] False False :: nat cotasks) =
     \<lparr>tasks = [(''a'', [])], allowedTasks = Some [JStr ''a'']\<rparr>"
  by (simp add: defineTasks_def define_step_def constructor_def get_task_def proto_members_def)

lemma keys_a: "object_keys [(''a'', hs)] = [''a'']"
  by (simp add: object_keys_def is_array_index_def is_digit_def)

text \<open>
  For a name that is not the name of an inherited member: with an allow-list
  set, \<^verbatim>\<open>registerTask\<close> of a name that has no list fails with the error whose
  message lists \<^verbatim>\<open>Object.keys(this.tasks)\<close>, and these are exactly the names that
  have a list. For a name that has a list, empty or not, the handler is appended
  at the end of the list: the handlers that were there stay, in their order,
  and so do the lists of the other names and the allow-list.
\<close>

lemma registerTask_not_inherited:
  "(allowedTasks self \<noteq> None \<and> map_of (tasks self) name = None
      \<and> map_of proto_members name = None \<longrightarrow>
      registerTask self name fn = Inl (Error (not_allowed_msg name (object_keys (tasks self))))
      \<and> set (object_keys (tasks self)) = dom (map_of (tasks self)))
   \<and> (\<forall>hs. map_of (tasks self) name = Some hs \<longrightarrow>
        (\<exists>self'. registerTask self name fn = Inr self'
           \<and> map_of (tasks self') = (map_of (tasks self))(name \<mapsto> hs @ [fn])
           \<and> allowedTasks self' = allowedTasks self))"
  by (simp add: registerTask_cases set_object_keys dom_map_of_conv_image_fst update_conv')

text \<open>
  C7. What the code does for a name that has no list and is the name of a
  member \<^verbatim>\<open>this.tasks\<close> inherits from \<^verbatim>\<open>Object.prototype\<close> (\<^verbatim>\<open>toString\<close>,
  \<^verbatim>\<open>constructor\<close>, ...): \<^verbatim>\<open>!this.tasks[name]\<close> is false, so the allow-list is not
  looked at, and \<^verbatim>\<open>this.tasks[name].push(fn)\<close> throws a \<^verbatim>\<open>TypeError\<close>, with or
  without an allow-list. The error that lists the allowed names is not raised.
\<close>

theorem registerTask_inherited_name:
  assumes "map_of (tasks self) name = None" and "map_of proto_members name \<noteq> None"
  shows "registerTask self name fn = Inl TypeError"
  using assms by (simp add: registerTask_cases)

theorem registerTask_inherited_name_witness:
  "allowedTasks (defineTasks constructor [JStr ''a''] False False :: nat cotasks) \<noteq> None
   \<and> map_of (tasks (defineTasks constructor [JStr ''a''] False False :: nat cotasks)) ''toString''
       = None
   \<and> map_of proto_members ''toString'' \<noteq> None
   \<and> registerTask (defineTasks constructor [JStr ''a''] False False) ''toString'' (7::nat) =
       Inl TypeError
   \<and> registerTask (defineTasks constructor [JStr ''a''] False False) ''c'' (7::nat) =
       Inl (Error (''Task name c not defined!'' @ [CHR 0x0A] @ ''Allowed tasks are: a''))"
  using registerTask_inherited_name
    [of "defineTasks constructor [JStr ''a''] False False" "''toString''" "7::nat"]
  by (simp add: define_a keys_a not_allowed_msg_def registerTask_cases proto_members_def)

lemma define_build_plain:
  "(defineTasks constructor [JStr ''build''] False False :: nat cotasks) =
     \<lparr>tasks = [(''build'', [])], allowedTasks = Some [JStr ''build'']\<rparr>"
  by (simp add: defineTasks_def define_step_def constructor_def get_task_def proto_members_def)

lemma define_build_phases:
  "(defineTasks constructor [JStr ''build''] True True :: nat cotasks) =
     \<lparr>tasks = [(''pre-build'', []), (''build'', []), (''post-build'', [])],
      allowedTasks = Some [JStr ''build'']\<rparr>"
  by (simp add: defineTasks_def define_step_def constructor_def get_task_def proto_members_def)

lemma keys_build: "object_keys [(''build'', hs)] = [''build'']"
  by (simp add: object_keys_def is_array_index_def is_digit_def)

text \<open>
  C3, as stated, fails: with the allow-list \<^verbatim>\<open>['build']\<close> defined without the
  phase lists, \<^verbatim>\<open>registerTask('pre-build', fn)\<close> throws the error of a name that
  is not allowed. \<^verbatim>\<open>registerTask\<close> has no exemption for phase names.
\<close>

theorem phase_name_refused:
  "allowedTasks (defineTasks constructor [JStr ''build''] False False :: nat cotasks) \<noteq> None
   \<and> registerTask (defineTasks constructor [JStr ''build''] False False) ''pre-build'' (1::nat) =
       Inl (Error (not_allowed_msg ''pre-build'' [''build'']))"
  by (simp add: define_build_plain registerTask_cases keys_build proto_members_def)

text \<open>
  C3, amended. With an allow-list set, registering a handler under a phase name
  \<^verbatim>\<open>pre-x\<close> or \<^verbatim>\<open>post-x\<close> fails with that error when no list for the phase
  name exists yet, and appends the handler when the list exists; the list exists
  after \<^verbatim>\<open>defineTasks\<close> was called for \<^verbatim>\<open>x\<close> with the flag of the phase set.
\<close>

theorem registerTask_phase_names:
  assumes "allowedTasks self \<noteq> None"
    and "name = ''pre-'' @ x \<or> name = ''post-'' @ x"
  shows "(map_of (tasks self) name = None \<longrightarrow>
            registerTask self name fn =
              Inl (Error (not_allowed_msg name (object_keys (tasks self)))))
       \<and> (\<forall>hs. map_of (tasks self) name = Some hs \<longrightarrow>
            (\<exists>self'. registerTask self name fn = Inr self'
               \<and> map_of (tasks self') name = Some (hs @ [fn])))
       \<and> (\<forall>names n regPost s. n \<in> set names \<longrightarrow>
            (\<exists>self'. registerTask (defineTasks s names True regPost) (''pre-'' @ to_string n) fn
               = Inr self'))
       \<and> (\<forall>names n regPre s. n \<in> set names \<longrightarrow>
            (\<exists>self'. registerTask (defineTasks s names regPre True) (''post-'' @ to_string n) fn
               = Inr self'))"
proof -
  have p: "map_of proto_members name = None"
    using assms(2) proto_phase_names [of x] by auto
  have a: "map_of (tasks self) name = None \<longrightarrow>
            registerTask self name fn =
              Inl (Error (not_allowed_msg name (object_keys (tasks self))))"
    using assms(1) p by (simp add: registerTask_cases)
  have b: "\<forall>hs. map_of (tasks self) name = Some hs \<longrightarrow>
            (\<exists>self'. registerTask self name fn = Inr self'
               \<and> map_of (tasks self') name = Some (hs @ [fn]))"
    by (simp add: registerTask_cases update_conv')
  have c: "\<exists>self'. registerTask (defineTasks s names True regPost) (''pre-'' @ to_string n) fn
               = Inr self'" if "n \<in> set names" for names n regPost and s :: "'a cotasks"
  proof -
    have "map_of (tasks (defineTasks s names True regPost)) (''pre-'' @ to_string n) = Some []"
      using that by (subst map_of_defineTasks) (simp add: image_iff, blast)
    then show ?thesis by (simp add: registerTask_cases)
  qed
  have d: "\<exists>self'. registerTask (defineTasks s names regPre True) (''post-'' @ to_string n) fn
               = Inr self'" if "n \<in> set names" for names n regPre and s :: "'a cotasks"
  proof -
    have "map_of (tasks (defineTasks s names regPre True)) (''post-'' @ to_string n) = Some []"
      using that by (subst map_of_defineTasks) (simp add: image_iff, blast)
    then show ?thesis by (simp add: registerTask_cases)
  qed
  from a b c d show ?thesis by blast
qed

theorem registerTask_phase_names_witness:
  "allowedTasks (defineTasks constructor [JStr ''build''] True True :: nat cotasks) \<noteq> None
   \<and> map_of (tasks (defineTasks constructor [JStr ''build''] True True :: nat cotasks)) ''pre-build'' = Some []
   \<and> (\<exists>self'. registerTask (defineTasks constructor [JStr ''build''] True True) ''pre-build'' (1::nat) = Inr self'
         \<and> map_of (tasks self') ''pre-build'' = Some [1])
   \<and> allowedTasks (defineTasks constructor [JStr ''build''] False False :: nat cotasks) \<noteq> None
   \<and> map_of (tasks (defineTasks constructor [JStr ''build''] False False :: nat cotasks)) ''post-build'' = None
   \<and> registerTask (defineTasks constructor [JStr ''build''] False False) ''post-build'' (1::nat) =
       Inl (Error (''Task name post-build not defined!'' @ [CHR 0x0A] @ ''Allowed tasks are: build''))"
  using registerTask_phase_names [of "defineTasks constructor [JStr ''build''] True True" "''pre-build''" "''build''" "1::nat"]
    registerTask_phase_names [of "defineTasks constructor [JStr ''build''] False False" "''post-build''" "''build''" "1::nat"]
  by (simp add: define_build_plain define_build_phases keys_build not_allowed_msg_def)

text \<open>
  C10, as stated, fails: a name of the call whose list exists loses its handlers
  when it is also the phase name of another name of the call. Here \<^verbatim>\<open>pre-x\<close>
  holds a handler, and \<^verbatim>\<open>defineTasks(['pre-x', 'x'], true, false)\<close> leaves
  \<^verbatim>\<open>pre-x\<close> empty.
\<close>

theorem defineTasks_empties_named_phase:
  "JStr ''pre-x'' \<in> set [JStr ''pre-x'', JStr ''x'']
   \<and> map_of (tasks \<lparr>tasks = [(''pre-x'', [5::nat])], allowedTasks = None\<rparr>)
         (to_string (JStr ''pre-x'')) = Some [5]
   \<and> map_of (tasks (defineTasks \<lparr>tasks = [(''pre-x'', [5::nat])], allowedTasks = None\<rparr>
                        [JStr ''pre-x'', JStr ''x''] True False))
         (to_string (JStr ''pre-x'')) = Some []"
  by (simp add: defineTasks_def define_step_def get_task_def proto_members_def)

text \<open>
  C10, amended. For every name of a call of \<^verbatim>\<open>defineTasks\<close>: when the flag for
  the pre (post) phase is set, the list of the pre (post) phase of the name is
  empty after the call, whatever it held before; and a list that existed for
  the name itself is unchanged, unless the name is also the pre or post phase
  name of a name of the call whose flag is set, in which case it is empty.
\<close>

theorem defineTasks_lists:
  assumes "n \<in> set names"
  shows "(regPre \<longrightarrow>
            map_of (tasks (defineTasks self names regPre regPost)) (''pre-'' @ to_string n) = Some [])
       \<and> (regPost \<longrightarrow>
            map_of (tasks (defineTasks self names regPre regPost)) (''post-'' @ to_string n) = Some [])
       \<and> (\<forall>hs. map_of (tasks self) (to_string n) = Some hs \<longrightarrow>
            map_of (tasks (defineTasks self names regPre regPost)) (to_string n) =
              (if (regPre \<and> to_string n \<in> (\<lambda>m. ''pre-'' @ to_string m) ` set names)
                  \<or> (regPost \<and> to_string n \<in> (\<lambda>m. ''post-'' @ to_string m) ` set names)
               then Some [] else Some hs))"
proof -
  have a: "regPre \<longrightarrow>
            map_of (tasks (defineTasks self names regPre regPost)) (''pre-'' @ to_string n) = Some []"
    using assms by (subst map_of_defineTasks) (simp add: image_iff, blast)
  have b: "regPost \<longrightarrow>
            map_of (tasks (defineTasks self names regPre regPost)) (''post-'' @ to_string n) = Some []"
    using assms by (subst map_of_defineTasks) (simp add: image_iff, blast)
  have c: "map_of (tasks (defineTasks self names regPre regPost)) (to_string n) =
              (if (regPre \<and> to_string n \<in> (\<lambda>m. ''pre-'' @ to_string m) ` set names)
                  \<or> (regPost \<and> to_string n \<in> (\<lambda>m. ''post-'' @ to_string m) ` set names)
               then Some [] else Some hs)"
    if "map_of (tasks self) (to_string n) = Some hs" for hs
  proof -
    have "to_string n \<in> to_string ` set names" using assms by simp
    then show ?thesis
      by (subst map_of_defineTasks) (simp only: that if_True option.case)
  qed
  from a b c show ?thesis by blast
qed

theorem defineTasks_lists_witness:
  "JStr ''build'' \<in> set [JStr ''build'']
   \<and> map_of (tasks \<lparr>tasks = [(''build'', [1::nat]), (''pre-build'', [2]), (''post-build'', [3])],
                    allowedTasks = None\<rparr>) (to_string (JStr ''build'')) = Some [1]
   \<and> map_of (tasks (defineTasks
         \<lparr>tasks = [(''build'', [1::nat]), (''pre-build'', [2]), (''post-build'', [3])], allowedTasks = None\<rparr>
         [JStr ''build''] True True)) ''pre-build'' = Some []
   \<and> map_of (tasks (defineTasks
         \<lparr>tasks = [(''build'', [1::nat]), (''pre-build'', [2]), (''post-build'', [3])], allowedTasks = None\<rparr>
         [JStr ''build''] True True)) ''post-build'' = Some []
   \<and> map_of (tasks (defineTasks
         \<lparr>tasks = [(''build'', [1::nat]), (''pre-build'', [2]), (''post-build'', [3])], allowedTasks = None\<rparr>
         [JStr ''build''] True True)) ''build'' = Some [1]"
  using defineTasks_lists [of "JStr ''build''" "[JStr ''build'']" True
      "\<lparr>tasks = [(''build'', [1::nat]), (''pre-build'', [2]), (''post-build'', [3])], allowedTasks = None\<rparr>"
      True]
  by simp

section \<open>Properties of \<^verbatim>\<open>run\<close> and \<^verbatim>\<open>pipe\<close>\<close>

text \<open>
  C2. What the code does when \<^verbatim>\<open>run\<close> gets a falsy first argument and no
  allow-list was defined: \<^verbatim>\<open>tasks\<close> becomes \<^verbatim>\<open>null\<close>, \<^verbatim>\<open>for ... of\<close> throws a
  \<^verbatim>\<open>TypeError\<close> and the promise is rejected with it. The error with the message
  \<^verbatim>\<open>Set allowedTasks option or use tasks argument!\<close> is raised by \<^verbatim>\<open>pipe\<close> only.
\<close>

theorem run_without_tasks:
  assumes "\<not> truthy task_arg" and "allowedTasks self = None"
  shows "run series series_inh self task_arg ctx args timeout w = (Rejects TypeError, w)"
  using assms by (simp add: run_def)

theorem run_without_tasks_witness:
  "\<not> truthy JUndefined \<and> allowedTasks (constructor :: nat cotasks) = None
   \<and> run (co_series echo) refuse constructor JUndefined (JStr ''ctx'') (JStr ''args'') JUndefined [] =
       (Rejects TypeError, [])
   \<and> pipe (co_pipe echo) refuse constructor JUndefined (JStr ''ctx'') (JStr ''value'') JUndefined [] =
       (Throws (Error ''Set allowedTasks option or use tasks argument!''), [])"
  using run_without_tasks [where task_arg = JUndefined and self = constructor
      and series = "co_series echo" and series_inh = refuse and ctx = "JStr ''ctx''"
      and args = "JStr ''args''" and timeout = JUndefined and w = "[]"]
  by (simp add: constructor_def pipe_def no_tasks_msg_def)

text \<open>
  C8. A call of \<^verbatim>\<open>pipe\<close> whose first argument is neither a string nor an array,
  on a registry without allow-list, throws the error
  \<^verbatim>\<open>Set allowedTasks option or use tasks argument!\<close>, and no handler runs.
\<close>

theorem pipe_without_tasks:
  assumes "\<not> is_string task_arg" and "\<not> isArray task_arg" and "allowedTasks self = None"
  shows "pipe copipe copipe_inh self task_arg ctx pipeArg timeout w = (Throws (Error no_tasks_msg), w)"
  using assms by (simp add: pipe_def Let_def)

theorem pipe_without_tasks_witness:
  "\<not> is_string (JObj [(''user'', JStr ''u'')]) \<and> \<not> isArray (JObj [(''user'', JStr ''u'')])
   \<and> allowedTasks (constructor :: nat cotasks) = None
   \<and> pipe (co_pipe echo) refuse constructor (JObj [(''user'', JStr ''u'')]) (JObj [(''value'', JNum 1)])
        JUndefined JUndefined [] =
       (Throws (Error ''Set allowedTasks option or use tasks argument!''), [])"
  using pipe_without_tasks [where task_arg = "JObj [(''user'', JStr ''u'')]" and self = constructor
      and copipe = "co_pipe echo" and copipe_inh = refuse and ctx = "JObj [(''value'', JNum 1)]"
      and pipeArg = JUndefined and timeout = JUndefined and w = "[]"]
  by (simp add: constructor_def no_tasks_msg_def)

text \<open>
  C9. When \<^verbatim>\<open>pipe\<close> is called with an array of tasks and a pipe value that is a
  number or undefined, the generator runs with \<^verbatim>\<open>null\<close> as the context and the
  given context as the pipe value; the given pipe value is not used, and the
  timeout is the fourth argument.
\<close>

theorem pipe_rebinds_arguments:
  assumes "is_number pipeArg \<or> pipeArg = JUndefined"
  shows "pipe copipe copipe_inh self (JArr names) ctx pipeArg timeout w =
           pipe_exec copipe copipe_inh (tasks self) names JNull ctx timeout w"
  using assms by (auto simp: pipe_def Let_def)

theorem pipe_rebinds_arguments_witness:
  "(is_number (JNum 500) \<or> JNum 500 = JUndefined)
   \<and> pipe (co_pipe echo) refuse \<lparr>tasks = [(''t'', [1])], allowedTasks = None\<rparr> (JArr [JStr ''t''])
        (JStr ''ctx'') (JNum 500) (JNum 9) [] =
       (Resolves (JArr [JNum 1, JNull, JStr ''ctx'']), [(1, JNull, JStr ''ctx'')])"
  using pipe_rebinds_arguments [where pipeArg = "JNum 500" and copipe = "co_pipe echo"
      and copipe_inh = refuse and self = "\<lparr>tasks = [(''t'', [1])], allowedTasks = None\<rparr>"
      and names = "[JStr ''t'']" and ctx = "JStr ''ctx''" and timeout = "JNum 9" and w = "[]"]
  by (simp add: pipe_exec_def pipe_phase_def echo_def get_task_def proto_members_def call_lib_def)

lemma define_build:
  "defineTasks constructor [JStr ''build''] True True =
     \<lparr>tasks = [(''pre-build'', []), (''build'', []), (''post-build'', [])],
      allowedTasks = Some [JStr ''build'']\<rparr>"
  by (simp add: defineTasks_def define_step_def constructor_def get_task_def proto_members_def)

lemma register_build:
  "registerTask (defineTasks constructor [JStr ''build''] True True) ''pre-build'' h1 =
     Inr \<lparr>tasks = [(''pre-build'', [h1]), (''build'', []), (''post-build'', [])],
          allowedTasks = Some [JStr ''build'']\<rparr>"
  "registerTask \<lparr>tasks = [(''pre-build'', [h1]), (''build'', []), (''post-build'', [])],
          allowedTasks = Some [JStr ''build'']\<rparr> ''build'' h2 =
     Inr \<lparr>tasks = [(''pre-build'', [h1]), (''build'', [h2]), (''post-build'', [])],
          allowedTasks = Some [JStr ''build'']\<rparr>"
  "registerTask \<lparr>tasks = [(''pre-build'', [h1]), (''build'', [h2]), (''post-build'', [])],
          allowedTasks = Some [JStr ''build'']\<rparr> ''post-build'' h3 =
     Inr \<lparr>tasks = [(''pre-build'', [h1]), (''build'', [h2]), (''post-build'', [h3])],
          allowedTasks = Some [JStr ''build'']\<rparr>"
  by (simp_all add: define_build registerTask_cases proto_members_def)

text \<open>
  C1. On the registry made by \<^verbatim>\<open>defineTasks(['build'], true, true)\<close> and the
  registration of \<open>h1\<close> under \<^verbatim>\<open>pre-build\<close>, \<open>h2\<close> under \<^verbatim>\<open>build\<close> and \<open>h3\<close>
  under \<^verbatim>\<open>post-build\<close>, all three registrations succeed and
  \<^verbatim>\<open>run('build', ctx, args, timeout)\<close> resolves to the report of three entries,
  for \<^verbatim>\<open>pre-build\<close>, \<^verbatim>\<open>build\<close> and \<^verbatim>\<open>post-build\<close> in this order, each with the
  array of the result of its handler. The library is a parameter: \<^verbatim>\<open>co.series\<close>
  of one handler resolves to the array of the handler's result. The code names
  the first field of an entry \<^verbatim>\<open>task\<close>.
\<close>

theorem run_build_report:
  assumes "series [h1] ctx args timeout w0 = (Inr (JArr [r1]), w1)"
    and "series [h2] ctx args timeout w1 = (Inr (JArr [r2]), w2)"
    and "series [h3] ctx args timeout w2 = (Inr (JArr [r3]), w3)"
  shows "\<exists>s1 s2 s3.
           registerTask (defineTasks constructor [JStr ''build''] True True) ''pre-build'' h1 = Inr s1
         \<and> registerTask s1 ''build'' h2 = Inr s2
         \<and> registerTask s2 ''post-build'' h3 = Inr s3
         \<and> run series series_inh s3 (JStr ''build'') ctx args timeout w0 =
             (Resolves (JArr [JObj [(''task'', JStr ''pre-build''), (''results'', JArr [r1])],
                              JObj [(''task'', JStr ''build''), (''results'', JArr [r2])],
                              JObj [(''task'', JStr ''post-build''), (''results'', JArr [r3])]]), w3)"
proof -
  let ?s3 = "\<lparr>tasks = [(''pre-build'', [h1]), (''build'', [h2]), (''post-build'', [h3])],
          allowedTasks = Some [JStr ''build'']\<rparr>"
  have "run series series_inh ?s3 (JStr ''build'') ctx args timeout w0 =
             (Resolves (JArr [JObj [(''task'', JStr ''pre-build''), (''results'', JArr [r1])],
                              JObj [(''task'', JStr ''build''), (''results'', JArr [r2])],
                              JObj [(''task'', JStr ''post-build''), (''results'', JArr [r3])]]), w3)"
    by (simp add: run_def run_phase_def entry_def assms get_task_def proto_members_def
          call_lib_def)
  then show ?thesis
    by (simp add: register_build)
qed

lemma series_echo_single:
  "co_series echo [h] ctx args timeout w = (Inr (JArr [JArr [JNum (of_nat h), ctx, args]]), w @ [(h, ctx, args)])"
  by (simp add: co_series_def echo_def)

theorem run_build_report_witness:
  "\<exists>s1 s2 s3.
           registerTask (defineTasks constructor [JStr ''build''] True True) ''pre-build'' (1::nat) = Inr s1
         \<and> registerTask s1 ''build'' 2 = Inr s2
         \<and> registerTask s2 ''post-build'' 3 = Inr s3
         \<and> run (co_series echo) refuse s3 (JStr ''build'') (JStr ''ctx'') (JStr ''args'') JUndefined [] =
             (Resolves (JArr [JObj [(''task'', JStr ''pre-build''), (''results'', JArr [JArr [JNum 1, JStr ''ctx'', JStr ''args'']])],
                              JObj [(''task'', JStr ''build''), (''results'', JArr [JArr [JNum 2, JStr ''ctx'', JStr ''args'']])],
                              JObj [(''task'', JStr ''post-build''), (''results'', JArr [JArr [JNum 3, JStr ''ctx'', JStr ''args'']])]]),
              [(1, JStr ''ctx'', JStr ''args''), (2, JStr ''ctx'', JStr ''args''), (3, JStr ''ctx'', JStr ''args'')])"
  using run_build_report [where series = "co_series echo" and series_inh = refuse
      and ctx = "JStr ''ctx''"
      and args = "JStr ''args''" and timeout = JUndefined and ?w0.0 = "[]"
      and ?h1.0 = 1 and ?h2.0 = 2 and ?h3.0 = 3
      and ?r1.0 = "JArr [JNum 1, JStr ''ctx'', JStr ''args'']"
      and ?r2.0 = "JArr [JNum 2, JStr ''ctx'', JStr ''args'']"
      and ?r3.0 = "JArr [JNum 3, JStr ''ctx'', JStr ''args'']"
      and ?w1.0 = "[(1, JStr ''ctx'', JStr ''args'')]"
      and ?w2.0 = "[(1, JStr ''ctx'', JStr ''args''), (2, JStr ''ctx'', JStr ''args'')]"
      and ?w3.0 = "[(1, JStr ''ctx'', JStr ''args''), (2, JStr ''ctx'', JStr ''args''),
                   (3, JStr ''ctx'', JStr ''args'')]"]
  by (simp add: series_echo_single)

section \<open>The loops of \<^verbatim>\<open>run\<close> and \<^verbatim>\<open>pipe\<close> and the schedule\<close>

text \<open>
  The loops go through the requested names from left to right, and a loop over
  names that are all registered is the execution of their schedule. For a key
  that has a list, or that is not the name of an inherited member, a block of
  the loop body sees what \<open>handlersFor\<close> gives.
\<close>

lemma get_task_faithful:
  "map_of ts key \<noteq> None \<or> map_of proto_members key = None \<Longrightarrow>
     get_task ts key = map_option Handlers (map_of ts key)"
  by (auto simp: get_task_def split: option.splits)

lemma run_loop_append:
  "run_loop series series_inh ts (xs @ ys) ctx args timeout res w =
     (case run_loop series series_inh ts xs ctx args timeout res w of
        (Inl e, w') \<Rightarrow> (Inl e, w')
      | (Inr res', w') \<Rightarrow> run_loop series series_inh ts ys ctx args timeout res' w')"
  by (induction xs arbitrary: res w) (auto split: option.splits prod.splits sum.splits)

lemma pipe_loop_append:
  "pipe_loop copipe copipe_inh ts (xs @ ys) ctx pipeArg timeout w =
     (case pipe_loop copipe copipe_inh ts xs ctx pipeArg timeout w of
        (Inl e, w') \<Rightarrow> (Inl e, w')
      | (Inr v, w') \<Rightarrow> pipe_loop copipe copipe_inh ts ys ctx v timeout w')"
  by (induction xs arbitrary: pipeArg w) (auto split: option.splits prod.splits sum.splits)

lemma series_sched_append:
  "series_sched series (xs @ ys) ctx args timeout res w =
     (case series_sched series xs ctx args timeout res w of
        (Inl e, w') \<Rightarrow> (Inl e, w')
      | (Inr res', w') \<Rightarrow> series_sched series ys ctx args timeout res' w')"
  by (induction xs arbitrary: res w) (auto split: prod.splits sum.splits)

lemma pipe_sched_append:
  "pipe_sched copipe (xs @ ys) ctx pipeArg timeout w =
     (case pipe_sched copipe xs ctx pipeArg timeout w of
        (Inl e, w') \<Rightarrow> (Inl e, w')
      | (Inr v, w') \<Rightarrow> pipe_sched copipe ys ctx v timeout w')"
  by (induction xs arbitrary: pipeArg w) (auto split: prod.splits sum.splits)

lemma run_phase_sched:
  "map_of ts key \<noteq> None \<or> map_of proto_members key = None \<Longrightarrow>
   run_phase series series_inh ts key label ctx args timeout res w =
     series_sched series (filter (\<lambda>ph. snd ph \<noteq> []) [(label, handlersFor ts key)])
       ctx args timeout res w"
  by (simp add: run_phase_def handlersFor_def call_lib_def get_task_faithful
        split: option.splits prod.splits sum.splits)

lemma pipe_phase_sched:
  "map_of ts key \<noteq> None \<or> map_of proto_members key = None \<Longrightarrow>
   pipe_phase copipe copipe_inh ts key ctx pipeArg timeout w =
     pipe_sched copipe (filter (\<lambda>ph. snd ph \<noteq> []) [(label, handlersFor ts key)])
       ctx pipeArg timeout w"
  by (simp add: pipe_phase_def handlersFor_def call_lib_def get_task_faithful
        split: option.splits prod.splits sum.splits)

lemma filter_phases_of:
  "filter (\<lambda>ph. snd ph \<noteq> []) (phases_of ts task) =
     filter (\<lambda>ph. snd ph \<noteq> []) [(JStr (''pre-'' @ to_string task), handlersFor ts (''pre-'' @ to_string task))]
     @ filter (\<lambda>ph. snd ph \<noteq> []) [(task, handlersFor ts (to_string task))]
     @ filter (\<lambda>ph. snd ph \<noteq> []) [(JStr (''post-'' @ to_string task), handlersFor ts (''post-'' @ to_string task))]"
  by (simp add: phases_of_def)

lemma schedule_Cons:
  "schedule ts (task # rest) = filter (\<lambda>ph. snd ph \<noteq> []) (phases_of ts task) @ schedule ts rest"
  by (simp add: schedule_def)

lemma schedule_append: "schedule ts (xs @ ys) = schedule ts xs @ schedule ts ys"
  by (simp add: schedule_def)


lemma bind3:
  "(case p1 of (Inl e, w1) \<Rightarrow> (Inl e, w1)
    | (Inr r1, w1) \<Rightarrow>
       (case f2 r1 w1 of (Inl e, w2) \<Rightarrow> (Inl e, w2)
        | (Inr r2, w2) \<Rightarrow>
           (case f3 r2 w2 of (Inl e, w3) \<Rightarrow> (Inl e, w3) | (Inr r3, w3) \<Rightarrow> g r3 w3)))
   = (case (case p1 of (Inl e, w1) \<Rightarrow> (Inl e, w1)
            | (Inr r1, w1) \<Rightarrow>
               (case f2 r1 w1 of (Inl e, w2) \<Rightarrow> (Inl e, w2) | (Inr r2, w2) \<Rightarrow> f3 r2 w2)) of
        (Inl e, w') \<Rightarrow> (Inl e, w')
      | (Inr r, w') \<Rightarrow> g r w')"
  by (simp split: prod.splits sum.splits)

lemma run_loop_step:
  assumes "map_of ts (to_string task) \<noteq> None"
  shows "run_loop series series_inh ts (task # rest) ctx args timeout res w =
     (case series_sched series (filter (\<lambda>ph. snd ph \<noteq> []) (phases_of ts task)) ctx args timeout res w of
        (Inl e, w') \<Rightarrow> (Inl e, w')
      | (Inr res', w') \<Rightarrow> run_loop series series_inh ts rest ctx args timeout res' w')"
proof -
  from assms obtain main where "map_of ts (to_string task) = Some main" by blast
  then have m: "get_task ts (to_string task) = Some (Handlers main)"
    by (rule get_task_own)
  have k: "map_of ts (to_string task) \<noteq> None \<or> map_of proto_members (to_string task) = None"
    using assms by simp
  have pre: "map_of ts (''pre-'' @ to_string task) \<noteq> None
               \<or> map_of proto_members (''pre-'' @ to_string task) = None"
    by (rule disjI2) (rule proto_phase_names)
  have post: "map_of ts (''post-'' @ to_string task) \<noteq> None
               \<or> map_of proto_members (''post-'' @ to_string task) = None"
    by (rule disjI2) (rule proto_phase_names)
  show ?thesis
    unfolding filter_phases_of series_sched_append
    by (simp only: run_loop.simps m option.case bind3
          run_phase_sched [OF pre] run_phase_sched [OF k] run_phase_sched [OF post])
qed

lemma pipe_loop_step:
  assumes "map_of ts (to_string task) \<noteq> None"
  shows "pipe_loop copipe copipe_inh ts (task # rest) ctx pipeArg timeout w =
     (case pipe_sched copipe (filter (\<lambda>ph. snd ph \<noteq> []) (phases_of ts task)) ctx pipeArg timeout w of
        (Inl e, w') \<Rightarrow> (Inl e, w')
      | (Inr v, w') \<Rightarrow> pipe_loop copipe copipe_inh ts rest ctx v timeout w')"
proof -
  from assms obtain main where "map_of ts (to_string task) = Some main" by blast
  then have m: "get_task ts (to_string task) = Some (Handlers main)"
    by (rule get_task_own)
  have k: "map_of ts (to_string task) \<noteq> None \<or> map_of proto_members (to_string task) = None"
    using assms by simp
  have pre: "map_of ts (''pre-'' @ to_string task) \<noteq> None
               \<or> map_of proto_members (''pre-'' @ to_string task) = None"
    by (rule disjI2) (rule proto_phase_names)
  have post: "map_of ts (''post-'' @ to_string task) \<noteq> None
               \<or> map_of proto_members (''post-'' @ to_string task) = None"
    by (rule disjI2) (rule proto_phase_names)
  show ?thesis
    unfolding filter_phases_of pipe_sched_append
    by (simp only: pipe_loop.simps m option.case bind3
        pipe_phase_sched [OF pre, where label = "JStr (''pre-'' @ to_string task)"]
        pipe_phase_sched [OF k, where label = task]
        pipe_phase_sched [OF post, where label = "JStr (''post-'' @ to_string task)"])
qed

lemma run_loop_schedule:
  "\<forall>n\<in>set names. isKnown ts n \<Longrightarrow>
   run_loop series series_inh ts names ctx args timeout res w =
     series_sched series (schedule ts names) ctx args timeout res w"
proof (induction names arbitrary: res w)
  case Nil
  show ?case by (simp add: schedule_def)
next
  case (Cons task rest)
  then have k: "map_of ts (to_string task) \<noteq> None" and r: "\<forall>n\<in>set rest. isKnown ts n"
    by (simp_all add: isKnown_def)
  show ?case
    by (simp only: run_loop_step [OF k] schedule_Cons series_sched_append Cons.IH [OF r])
qed

lemma pipe_loop_schedule:
  "\<forall>n\<in>set names. isKnown ts n \<Longrightarrow>
   pipe_loop copipe copipe_inh ts names ctx pipeArg timeout w =
     pipe_sched copipe (schedule ts names) ctx pipeArg timeout w"
proof (induction names arbitrary: pipeArg w)
  case Nil
  show ?case by (simp add: schedule_def)
next
  case (Cons task rest)
  then have k: "map_of ts (to_string task) \<noteq> None" and r: "\<forall>n\<in>set rest. isKnown ts n"
    by (simp_all add: isKnown_def)
  show ?case
    by (simp only: pipe_loop_step [OF k] schedule_Cons pipe_sched_append Cons.IH [OF r])
qed

lemma run_phase_error:
  "run_phase series series_inh ts key label ctx args timeout res w = (Inl e, w') \<Longrightarrow> \<exists>f. e = Failed f"
  by (auto simp: run_phase_def split: option.splits if_splits prod.splits sum.splits)

lemma pipe_phase_error:
  "pipe_phase copipe copipe_inh ts key ctx pipeArg timeout w = (Inl e, w') \<Longrightarrow>
     (\<exists>f. e = Failed f) \<or> e = Error invalid_pipe_msg"
  by (auto simp: pipe_phase_def split: option.splits if_splits prod.splits sum.splits)

lemma run_loop_error:
  "run_loop series series_inh ts names ctx args timeout res w = (Inl (Error m), w') \<Longrightarrow>
     \<exists>n\<in>set names. m = unknown_task_msg (to_string n) \<and> get_task ts (to_string n) = None"
proof (induction names arbitrary: res w)
  case Nil
  then show ?case by simp
next
  case (Cons task rest)
  show ?case
  proof (cases "get_task ts (to_string task)")
    case None
    with Cons.prems show ?thesis by simp
  next
    case (Some main)
    note ph = run_phase_error [of series series_inh ts _ _ ctx args timeout]
    from Cons.prems Some obtain res3 w3 where
      "run_loop series series_inh ts rest ctx args timeout res3 w3 = (Inl (Error m), w')"
      by (auto split: prod.splits sum.splits dest: ph)
    from Cons.IH [OF this] show ?thesis by auto
  qed
qed

lemma pipe_loop_error:
  "pipe_loop copipe copipe_inh ts names ctx pipeArg timeout w = (Inl (Error m), w') \<Longrightarrow>
     m = invalid_pipe_msg
     \<or> (\<exists>n\<in>set names. m = unknown_task_msg (to_string n) \<and> get_task ts (to_string n) = None)"
proof (induction names arbitrary: pipeArg w)
  case Nil
  then show ?case by simp
next
  case (Cons task rest)
  show ?case
  proof (cases "get_task ts (to_string task)")
    case None
    with Cons.prems show ?thesis by simp
  next
    case (Some main)
    note ph = pipe_phase_error [of copipe copipe_inh ts _ ctx _ timeout]
    from Cons.prems Some have
      "m = invalid_pipe_msg \<or> (\<exists>p3 w3. pipe_loop copipe copipe_inh ts rest ctx p3 timeout w3 = (Inl (Error m), w'))"
      by (auto split: prod.splits sum.splits dest: ph)
    then show ?thesis
      using Cons.IH by auto
  qed
qed

lemma unknown_task_msg_inject: "unknown_task_msg a = unknown_task_msg b \<longleftrightarrow> a = b"
  by (simp add: unknown_task_msg_def)

lemma unknown_not_invalid: "unknown_task_msg a \<noteq> invalid_pipe_msg"
  by (simp add: unknown_task_msg_def invalid_pipe_msg_def)

lemma run_JArr:
  "run series series_inh self (JArr names) ctx args timeout w =
     (case run_loop series series_inh (tasks self) names ctx args timeout [] w of
        (Inl e, w') \<Rightarrow> (Rejects e, w')
      | (Inr res, w') \<Rightarrow> (Resolves (JArr res), w'))"
  by (simp add: run_def)

lemma pipe_JArr:
  "pipe copipe copipe_inh self (JArr names) ctx pipeArg timeout w =
     pipe_exec copipe copipe_inh (tasks self) names
       (if is_number pipeArg \<or> pipeArg = JUndefined then JNull else ctx)
       (if is_number pipeArg \<or> pipeArg = JUndefined then ctx else pipeArg) timeout w"
  by (simp add: pipe_def Let_def)

lemma run_unknown_after:
  assumes "run series series_inh self (JArr before) ctx args timeout w = (Resolves r, w1)"
    and "get_task (tasks self) (to_string n) = None"
  shows "run series series_inh self (JArr (before @ n # after)) ctx args timeout w =
           (Rejects (Error (unknown_task_msg (to_string n))), w1)"
  using assms unfolding run_JArr run_loop_append
  by (auto split: prod.splits sum.splits)

lemma run_unknown_only:
  assumes "run series series_inh self (JArr names) ctx args timeout w =
             (Rejects (Error (unknown_task_msg k)), w')"
  shows "k \<in> to_string ` set names \<and> get_task (tasks self) k = None"
proof -
  from assms have
    "run_loop series series_inh (tasks self) names ctx args timeout [] w =
       (Inl (Error (unknown_task_msg k)), w')"
    unfolding run_JArr by (auto split: prod.splits sum.splits)
  from run_loop_error [OF this] show ?thesis
    by (auto simp: unknown_task_msg_inject)
qed

lemma pipe_unknown_after:
  assumes "pipe copipe copipe_inh self (JArr before) ctx pipeArg timeout w = (Resolves v, w1)"
    and "get_task (tasks self) (to_string n) = None"
  shows "pipe copipe copipe_inh self (JArr (before @ n # after)) ctx pipeArg timeout w =
           (Rejects (Error (unknown_task_msg (to_string n))), w1)"
  using assms unfolding pipe_JArr pipe_exec_def pipe_loop_append
  by (auto split: prod.splits sum.splits)

lemma pipe_unknown_only:
  assumes "pipe copipe copipe_inh self (JArr names) ctx pipeArg timeout w =
             (Rejects (Error (unknown_task_msg k)), w')"
  shows "k \<in> to_string ` set names \<and> get_task (tasks self) k = None"
proof -
  from assms obtain c p where
    "pipe_loop copipe copipe_inh (tasks self) names c p timeout w =
       (Inl (Error (unknown_task_msg k)), w')"
    unfolding pipe_JArr pipe_exec_def by (auto split: prod.splits sum.splits)
  from pipe_loop_error [OF this] show ?thesis
    by (auto simp: unknown_task_msg_inject unknown_not_invalid)
qed

text \<open>
  For names that are not names of inherited members: in a call of \<^verbatim>\<open>run\<close> or
  \<^verbatim>\<open>pipe\<close>, the error \<^verbatim>\<open>Task name t not defined!\<close> is raised when the loop comes
  to a requested name \<open>t\<close> that has no list (the tasks before it have run
  through). It is raised only for a requested name that has no list and is not
  inherited: a name with a list, also an empty one made by \<^verbatim>\<open>defineTasks\<close>,
  never raises it. A name given as a string is the request of the array that
  holds it.
\<close>

lemma unknown_task_not_inherited:
  "(run series series_inh self (JArr before) ctx args timeout w = (Resolves r, w1)
      \<and> map_of (tasks self) (to_string n) = None
      \<and> map_of proto_members (to_string n) = None \<longrightarrow>
    run series series_inh self (JArr (before @ n # after)) ctx args timeout w =
      (Rejects (Error (unknown_task_msg (to_string n))), w1))
   \<and> (run series series_inh self (JArr names) ctx args timeout w =
         (Rejects (Error (unknown_task_msg k)), w') \<longrightarrow>
        k \<in> to_string ` set names \<and> map_of (tasks self) k = None
        \<and> map_of proto_members k = None)
   \<and> (pipe copipe copipe_inh self (JArr before) ctx pipeArg timeout w = (Resolves v, w1)
        \<and> map_of (tasks self) (to_string n) = None
        \<and> map_of proto_members (to_string n) = None \<longrightarrow>
      pipe copipe copipe_inh self (JArr (before @ n # after)) ctx pipeArg timeout w =
        (Rejects (Error (unknown_task_msg (to_string n))), w1))
   \<and> (pipe copipe copipe_inh self (JArr names) ctx pipeArg timeout w =
         (Rejects (Error (unknown_task_msg k)), w') \<longrightarrow>
        k \<in> to_string ` set names \<and> map_of (tasks self) k = None
        \<and> map_of proto_members k = None)
   \<and> (t \<noteq> [] \<longrightarrow>
        run series series_inh self (JStr t) ctx args timeout w =
          run series series_inh self (JArr [JStr t]) ctx args timeout w)
   \<and> pipe copipe copipe_inh self (JStr t) ctx pipeArg timeout w =
        pipe copipe copipe_inh self (JArr [JStr t]) ctx pipeArg timeout w"
proof (intro conjI impI)
  assume "run series series_inh self (JArr before) ctx args timeout w = (Resolves r, w1)
            \<and> map_of (tasks self) (to_string n) = None
            \<and> map_of proto_members (to_string n) = None"
  then show "run series series_inh self (JArr (before @ n # after)) ctx args timeout w =
               (Rejects (Error (unknown_task_msg (to_string n))), w1)"
    by (simp add: run_unknown_after get_task_None)
next
  assume "run series series_inh self (JArr names) ctx args timeout w =
            (Rejects (Error (unknown_task_msg k)), w')"
  from run_unknown_only [OF this]
  show "k \<in> to_string ` set names" and "map_of (tasks self) k = None"
    and "map_of proto_members k = None"
    by (simp_all add: get_task_None)
next
  assume "pipe copipe copipe_inh self (JArr before) ctx pipeArg timeout w = (Resolves v, w1)
            \<and> map_of (tasks self) (to_string n) = None
            \<and> map_of proto_members (to_string n) = None"
  then show "pipe copipe copipe_inh self (JArr (before @ n # after)) ctx pipeArg timeout w =
               (Rejects (Error (unknown_task_msg (to_string n))), w1)"
    by (simp add: pipe_unknown_after get_task_None)
next
  assume "pipe copipe copipe_inh self (JArr names) ctx pipeArg timeout w =
            (Rejects (Error (unknown_task_msg k)), w')"
  from pipe_unknown_only [OF this]
  show "k \<in> to_string ` set names" and "map_of (tasks self) k = None"
    and "map_of proto_members k = None"
    by (simp_all add: get_task_None)
next
  assume "t \<noteq> []"
  then show "run series series_inh self (JStr t) ctx args timeout w =
               run series series_inh self (JArr [JStr t]) ctx args timeout w"
    by (simp add: run_def)
next
  show "pipe copipe copipe_inh self (JStr t) ctx pipeArg timeout w =
          pipe copipe copipe_inh self (JArr [JStr t]) ctx pipeArg timeout w"
    by (simp add: pipe_def)
qed

text \<open>
  C5. What the code does when the requested name was never registered but is
  the name of a member \<^verbatim>\<open>this.tasks\<close> inherits from \<^verbatim>\<open>Object.prototype\<close>: for
  \<^verbatim>\<open>toString\<close>, \<^verbatim>\<open>!this.tasks[task]\<close> is false, so the error
  \<^verbatim>\<open>Task name toString not defined!\<close> is not raised; the length of the inherited
  function is 0, so no block runs, and on a registry without handlers under
  \<^verbatim>\<open>pre-toString\<close> and \<^verbatim>\<open>post-toString\<close> the call of \<^verbatim>\<open>run\<close> resolves to the empty
  report and the call of \<^verbatim>\<open>pipe\<close> to the pipe value it was given.
\<close>

theorem run_inherited_name:
  assumes "map_of (tasks self) ''toString'' = None"
    and "handlersFor (tasks self) ''pre-toString'' = []"
    and "handlersFor (tasks self) ''post-toString'' = []"
  shows "run series series_inh self (JStr ''toString'') ctx args timeout w =
           (Resolves (JArr []), w)
       \<and> pipe copipe copipe_inh self (JStr ''toString'') ctx pipeArg timeout w =
           (Resolves (if is_number pipeArg \<or> pipeArg = JUndefined then ctx else pipeArg), w)"
proof -
  have g: "get_task (tasks self) ''toString'' = Some (Inherited ''toString'')"
    using assms(1) by (simp add: get_task_def proto_members_def)
  have l: "\<not> has_length (Inherited ''toString'' :: 'a member)"
    by (simp add: proto_members_def)
  have pre: "get_task (tasks self) ''pre-toString'' = None
               \<or> get_task (tasks self) ''pre-toString'' = Some (Handlers [])"
    using assms(2) proto_phase_names(1) [of "''toString''"]
    by (auto simp: get_task_def handlersFor_def split: option.splits)
  have post: "get_task (tasks self) ''post-toString'' = None
               \<or> get_task (tasks self) ''post-toString'' = Some (Handlers [])"
    using assms(3) proto_phase_names(2) [of "''toString''"]
    by (auto simp: get_task_def handlersFor_def split: option.splits)
  have r: "run_phase series series_inh (tasks self) ''pre-toString'' lb ctx args timeout res w
             = (Inr res, w)"
          "run_phase series series_inh (tasks self) ''toString'' lb ctx args timeout res w
             = (Inr res, w)"
          "run_phase series series_inh (tasks self) ''post-toString'' lb ctx args timeout res w
             = (Inr res, w)" for lb res
    using pre post g l by (auto simp: run_phase_def)
  have p: "pipe_phase copipe copipe_inh (tasks self) ''pre-toString'' c v timeout w = (Inr v, w)"
          "pipe_phase copipe copipe_inh (tasks self) ''toString'' c v timeout w = (Inr v, w)"
          "pipe_phase copipe copipe_inh (tasks self) ''post-toString'' c v timeout w = (Inr v, w)"
    for c v
    using pre post g l by (auto simp: pipe_phase_def)
  show ?thesis
    by (simp add: run_def pipe_def pipe_exec_def g r p)
qed

theorem run_inherited_name_witness:
  "map_of (tasks (constructor :: nat cotasks)) ''toString'' = None
   \<and> handlersFor (tasks (constructor :: nat cotasks)) ''pre-toString'' = []
   \<and> handlersFor (tasks (constructor :: nat cotasks)) ''post-toString'' = []
   \<and> run (co_series echo) refuse constructor (JStr ''toString'') (JStr ''ctx'') (JStr ''args'')
         JUndefined [] = (Resolves (JArr []), [])
   \<and> pipe (co_pipe echo) refuse constructor (JStr ''toString'') (JStr ''ctx'') (JStr ''value'')
         JUndefined [] = (Resolves (JStr ''value''), [])
   \<and> run (co_series echo) refuse constructor (JStr ''deploy'') (JStr ''ctx'') (JStr ''args'')
         JUndefined [] = (Rejects (Error ''Task name deploy not defined!''), [])"
  using run_inherited_name [where self = "constructor :: nat cotasks"
      and series = "co_series echo" and series_inh = refuse
      and copipe = "co_pipe echo" and copipe_inh = refuse
      and ctx = "JStr ''ctx''" and args = "JStr ''args''" and pipeArg = "JStr ''value''"
      and timeout = JUndefined and w = "[]"]
  by (simp add: constructor_def handlersFor_def run_def get_task_def proto_members_def
        unknown_task_msg_def)

lemma pipe_known_prefix:
  assumes "\<forall>n\<in>set ns1. isKnown ts n"
  shows "pipe_loop copipe copipe_inh ts (ns1 @ ns2) ctx pipeArg timeout w =
     (case pipe_sched copipe (schedule ts ns1) ctx pipeArg timeout w of
        (Inl e, w') \<Rightarrow> (Inl e, w')
      | (Inr v, w') \<Rightarrow> pipe_loop copipe copipe_inh ts ns2 ctx v timeout w')"
  by (simp only: pipe_loop_append pipe_loop_schedule [OF assms])

lemma pipe_sched_stops:
  assumes "pipe_sched copipe before ctx pipeArg timeout w = (Inr v1, w1)"
    and "copipe (snd ph) ctx v1 timeout w1 = (Inr v2, w2)"
  shows "pipe_sched copipe (before @ ph # after) ctx pipeArg timeout w =
           (if truthy v2 then pipe_sched copipe after ctx v2 timeout w2
            else (Inl (Error invalid_pipe_msg), w2))"
  using assms by (simp add: pipe_sched_append)

text \<open>
  C4. In a call of \<^verbatim>\<open>pipe\<close> with a proper pipe value, let the names \<open>ns1\<close> be
  registered, let \<open>ph\<close> be a phase of their schedule (so it has handlers), let
  the phases before it run through and let the chain of \<open>ph\<close> complete with the
  value \<open>v2\<close> in the world \<open>w2\<close>. If \<open>v2\<close> is falsy, the call is rejected with
  the pipe error and the world stays \<open>w2\<close>: neither the phases after \<open>ph\<close> nor
  the tasks \<open>ns2\<close> after it are executed. If \<open>v2\<close> is truthy and \<open>ph\<close> is the
  last phase of the last task, the call resolves to \<open>v2\<close>.
\<close>

theorem pipe_invalid_value:
  assumes "\<forall>n\<in>set ns1. isKnown (tasks self) n"
    and "schedule (tasks self) ns1 = before @ ph # after"
    and "pipe_sched copipe before ctx pipeArg timeout w = (Inr v1, w1)"
    and "copipe (snd ph) ctx v1 timeout w1 = (Inr v2, w2)"
    and "\<not> is_number pipeArg" and "pipeArg \<noteq> JUndefined"
  shows "(\<not> truthy v2 \<longrightarrow>
            pipe copipe copipe_inh self (JArr (ns1 @ ns2)) ctx pipeArg timeout w =
              (Rejects (Error invalid_pipe_msg), w2))
       \<and> (truthy v2 \<and> after = [] \<and> ns2 = [] \<longrightarrow>
            pipe copipe copipe_inh self (JArr (ns1 @ ns2)) ctx pipeArg timeout w = (Resolves v2, w2))"
proof -
  have "pipe copipe copipe_inh self (JArr (ns1 @ ns2)) ctx pipeArg timeout w =
          (case (case pipe_sched copipe (before @ ph # after) ctx pipeArg timeout w of
                   (Inl e, w') \<Rightarrow> (Inl e, w')
                 | (Inr v, w') \<Rightarrow> pipe_loop copipe copipe_inh (tasks self) ns2 ctx v timeout w') of
             (Inl e, w') \<Rightarrow> (Rejects e, w')
           | (Inr v, w') \<Rightarrow> (Resolves v, w'))"
    using assms(5,6)
    by (simp add: pipe_JArr pipe_exec_def pipe_known_prefix [OF assms(1)] assms(2))
  then show ?thesis
    by (auto simp: pipe_sched_stops [OF assms(3,4)])
qed

lemma pipe_echo_null_witness_aux:
  "schedule [(''pre-a'', [2::nat]), (''a'', [0]), (''post-a'', [3]), (''b'', [4])] [JStr ''a''] =
     [(JStr ''pre-a'', [2])] @ (JStr ''a'', [0]) # [(JStr ''post-a'', [3])]"
  by (simp add: schedule_def phases_of_def handlersFor_def)

theorem pipe_invalid_value_witness:
  "isKnown [(''pre-a'', [2::nat]), (''a'', [0]), (''post-a'', [3]), (''b'', [4])] (JStr ''a'')
   \<and> schedule [(''pre-a'', [2::nat]), (''a'', [0]), (''post-a'', [3]), (''b'', [4])] [JStr ''a''] =
       [(JStr ''pre-a'', [2])] @ (JStr ''a'', [0]) # [(JStr ''post-a'', [3])]
   \<and> pipe_sched (co_pipe echo_null) [(JStr ''pre-a'', [2])] (JStr ''ctx'') (JStr ''value'') JUndefined [] =
       (Inr (JArr [JNum 2, JStr ''ctx'', JStr ''value'']), [(2, JStr ''ctx'', JStr ''value'')])
   \<and> co_pipe echo_null [0] (JStr ''ctx'') (JArr [JNum 2, JStr ''ctx'', JStr ''value'']) JUndefined
         [(2, JStr ''ctx'', JStr ''value'')] =
       (Inr JNull, [(2, JStr ''ctx'', JStr ''value''),
                    (0, JStr ''ctx'', JArr [JNum 2, JStr ''ctx'', JStr ''value''])])
   \<and> \<not> truthy JNull
   \<and> pipe (co_pipe echo_null) refuse
         \<lparr>tasks = [(''pre-a'', [2::nat]), (''a'', [0]), (''post-a'', [3]), (''b'', [4])],
          allowedTasks = None\<rparr>
         (JArr [JStr ''a'', JStr ''b'']) (JStr ''ctx'') (JStr ''value'') JUndefined [] =
       (Rejects (Error ''Pipe error. Returned data aren't a valid pipe data object''),
        [(2, JStr ''ctx'', JStr ''value''),
         (0, JStr ''ctx'', JArr [JNum 2, JStr ''ctx'', JStr ''value''])])"
  using pipe_invalid_value [where self = "\<lparr>tasks = [(''pre-a'', [2::nat]), (''a'', [0]), (''post-a'', [3]), (''b'', [4])],
          allowedTasks = None\<rparr>" and ?ns1.0 = "[JStr ''a'']" and ?ns2.0 = "[JStr ''b'']"
      and before = "[(JStr ''pre-a'', [2])]" and ph = "(JStr ''a'', [0])" and after = "[(JStr ''post-a'', [3])]"
      and copipe = "co_pipe echo_null" and copipe_inh = refuse
      and ctx = "JStr ''ctx''" and pipeArg = "JStr ''value''"
      and timeout = JUndefined and w = "[]"
      and ?v1.0 = "JArr [JNum 2, JStr ''ctx'', JStr ''value'']"
      and ?w1.0 = "[(2, JStr ''ctx'', JStr ''value'')]"
      and ?v2.0 = JNull
      and ?w2.0 = "[(2, JStr ''ctx'', JStr ''value''),
                    (0, JStr ''ctx'', JArr [JNum 2, JStr ''ctx'', JStr ''value''])]"]
  by (simp add: pipe_echo_null_witness_aux isKnown_def echo_null_def invalid_pipe_msg_def)

section \<open>The order of the handlers\<close>

lemma series_loop_acc:
  "series_loop invoke hs ctx args timeout acc w =
     (case series_loop invoke hs ctx args timeout [] w of
        (Inl f, w') \<Rightarrow> (Inl f, w')
      | (Inr rs, w') \<Rightarrow> (Inr (acc @ rs), w'))"
proof (induction hs arbitrary: acc w)
  case Nil
  show ?case by simp
next
  case (Cons h hs)
  show ?case
  proof (cases "invoke h ctx args timeout w")
    case (Pair o1 w1)
    show ?thesis
    proof (cases o1)
      case (Inl f)
      with Pair show ?thesis by simp
    next
      case (Inr r)
      have "series_loop invoke (h # hs) ctx args timeout acc w =
              series_loop invoke hs ctx args timeout (acc @ [r]) w1"
        using Pair Inr by simp
      also have "\<dots> = (case series_loop invoke hs ctx args timeout [] w1 of
                          (Inl f, w') \<Rightarrow> (Inl f, w')
                        | (Inr rs, w') \<Rightarrow> (Inr (acc @ [r] @ rs), w'))"
        by (subst Cons.IH) (simp split: prod.splits sum.splits)
      finally have l: "series_loop invoke (h # hs) ctx args timeout acc w =
          (case series_loop invoke hs ctx args timeout [] w1 of
                          (Inl f, w') \<Rightarrow> (Inl f, w')
                        | (Inr rs, w') \<Rightarrow> (Inr (acc @ [r] @ rs), w'))" .
      have "series_loop invoke (h # hs) ctx args timeout [] w =
              series_loop invoke hs ctx args timeout [r] w1"
        using Pair Inr by simp
      also have "\<dots> = (case series_loop invoke hs ctx args timeout [] w1 of
                          (Inl f, w') \<Rightarrow> (Inl f, w')
                        | (Inr rs, w') \<Rightarrow> (Inr ([r] @ rs), w'))"
        by (subst Cons.IH) simp
      finally have r: "series_loop invoke (h # hs) ctx args timeout [] w =
          (case series_loop invoke hs ctx args timeout [] w1 of
                          (Inl f, w') \<Rightarrow> (Inl f, w')
                        | (Inr rs, w') \<Rightarrow> (Inr ([r] @ rs), w'))" .
      show ?thesis
        unfolding l r by (simp split: prod.splits sum.splits)
    qed
  qed
qed

lemma series_loop_append:
  "series_loop invoke (xs @ ys) ctx args timeout acc w =
     (case series_loop invoke xs ctx args timeout acc w of
        (Inl f, w') \<Rightarrow> (Inl f, w')
      | (Inr acc', w') \<Rightarrow> series_loop invoke ys ctx args timeout acc' w')"
  by (induction xs arbitrary: acc w) (simp_all split: prod.splits sum.splits)

lemma series_loop_length:
  "series_loop invoke hs ctx args timeout acc w = (Inr rs, w') \<Longrightarrow>
     length rs = length acc + length hs"
  by (induction hs arbitrary: acc w) (auto split: prod.splits sum.splits)

lemma co_pipe_append:
  "co_pipe invoke (xs @ ys) ctx pipeArg timeout w =
     (case co_pipe invoke xs ctx pipeArg timeout w of
        (Inl f, w') \<Rightarrow> (Inl f, w')
      | (Inr v, w') \<Rightarrow> co_pipe invoke ys ctx v timeout w')"
  by (induction xs arbitrary: pipeArg w) (simp_all split: prod.splits sum.splits)

lemma series_sched_handlers:
  "series_sched (co_series invoke) sched ctx args timeout res w =
     (case series_loop invoke (concat (map snd sched)) ctx args timeout [] w of
        (Inl f, w') \<Rightarrow> (Inl (Failed f), w')
      | (Inr rs, w') \<Rightarrow> (Inr (res @ report sched rs), w'))"
proof (induction sched arbitrary: res w)
  case Nil
  show ?case by simp
next
  case (Cons ph rest)
  show ?case
  proof (cases "series_loop invoke (snd ph) ctx args timeout [] w")
    case (Pair o1 w1)
    show ?thesis
    proof (cases o1)
      case (Inl f)
      with Pair show ?thesis
        by (simp add: co_series_def series_loop_append)
    next
      case (Inr rs1)
      with Pair have len: "length rs1 = length (snd ph)"
        using series_loop_length [of invoke "snd ph" ctx args timeout "[]" w rs1 w1] by simp
      have l: "series_sched (co_series invoke) (ph # rest) ctx args timeout res w =
                 series_sched (co_series invoke) rest ctx args timeout
                   (res @ [entry (fst ph) (JArr rs1)]) w1"
        using Pair Inr by (simp add: co_series_def)
      have r: "series_loop invoke (concat (map snd (ph # rest))) ctx args timeout [] w =
                 (case series_loop invoke (concat (map snd rest)) ctx args timeout [] w1 of
                    (Inl f, w') \<Rightarrow> (Inl f, w')
                  | (Inr rs, w') \<Rightarrow> (Inr (rs1 @ rs), w'))"
        using Pair Inr
        by (simp add: series_loop_append
              series_loop_acc [of invoke "concat (map snd rest)" ctx args timeout rs1 w1])
      show ?thesis
        unfolding l r Cons.IH
        by (simp add: len split: prod.splits sum.splits)
    qed
  qed
qed

lemma pipe_sched_handlers:
  "pipe_sched (co_pipe invoke) sched ctx pipeArg timeout w = (r, w') \<Longrightarrow>
     (case r of
        Inr v \<Rightarrow> co_pipe invoke (concat (map snd sched)) ctx pipeArg timeout w = (Inr v, w')
      | Inl (Failed f) \<Rightarrow> co_pipe invoke (concat (map snd sched)) ctx pipeArg timeout w = (Inl f, w')
      | Inl _ \<Rightarrow> True)"
proof (induction sched arbitrary: pipeArg w)
  case Nil
  then show ?case by auto
next
  case (Cons ph rest)
  show ?case
  proof (cases "co_pipe invoke (snd ph) ctx pipeArg timeout w")
    case (Pair o1 w1)
    show ?thesis
    proof (cases o1)
      case (Inl f)
      with Pair Cons.prems show ?thesis
        by (auto simp: co_pipe_append)
    next
      case (Inr v1)
      show ?thesis
      proof (cases "truthy v1")
        case True
        with Pair Inr Cons.prems have
          "pipe_sched (co_pipe invoke) rest ctx v1 timeout w1 = (r, w')" by simp
        from Cons.IH [OF this] show ?thesis
          using Pair Inr by (simp add: co_pipe_append split: sum.splits jserror.splits)
      next
        case False
        with Pair Inr Cons.prems show ?thesis by auto
      qed
    qed
  qed
qed

lemma handlersFor_registerTask:
  "registerTask self name fn = Inr self' \<Longrightarrow>
     handlersFor (tasks self') name = handlersFor (tasks self) name @ [fn]"
  by (auto simp: registerTask_cases handlersFor_def update_conv' split: option.splits if_splits)

lemma empty_phase_skipped:
  "handlersFor ts key = [] \<Longrightarrow>
   map_of ts key \<noteq> None \<or> map_of proto_members key = None \<Longrightarrow>
     run_phase series series_inh ts key label ctx args timeout res w = (Inr res, w)
     \<and> pipe_phase copipe copipe_inh ts key ctx pipeArg timeout w = (Inr pipeArg, w)"
  by (auto simp: handlersFor_def run_phase_def pipe_phase_def get_task_faithful
        split: option.splits)

text \<open>
  C6. For requested names that are all registered, \<^verbatim>\<open>run\<close> and \<^verbatim>\<open>pipe\<close> execute
  the schedule: the tasks in the order of the request, for each task the phases
  pre, main, post, the phases without handlers left out, one call of the library
  per phase with the list of the phase. With the library as the specification
  describes it, \<^verbatim>\<open>run\<close> is one series over all handlers of the schedule in this
  order, its report cut into one entry per phase, and a \<^verbatim>\<open>pipe\<close> that resolves or
  fails in a handler is one chain through all handlers in this order. A phase
  without handlers, under a key that has a list or is not the name of an
  inherited member (so every phase of a registered task), adds no entry and
  leaves the pipe value and the world as they are, and \<^verbatim>\<open>registerTask\<close> puts a
  handler at the end of its list, so the order of a list is the order of
  registration.
\<close>

theorem fifo_order:
  assumes "\<forall>n\<in>set names. isKnown (tasks self) n"
    and "\<not> is_number pipeArg" and "pipeArg \<noteq> JUndefined"
  shows "run series series_inh self (JArr names) ctx args timeout w =
           (case series_sched series (schedule (tasks self) names) ctx args timeout [] w of
              (Inl e, w') \<Rightarrow> (Rejects e, w')
            | (Inr res, w') \<Rightarrow> (Resolves (JArr res), w'))
       \<and> pipe copipe copipe_inh self (JArr names) ctx pipeArg timeout w =
           (case pipe_sched copipe (schedule (tasks self) names) ctx pipeArg timeout w of
              (Inl e, w') \<Rightarrow> (Rejects e, w')
            | (Inr v, w') \<Rightarrow> (Resolves v, w'))
       \<and> run (co_series invoke) series_inh self (JArr names) ctx args timeout w =
           (case series_loop invoke (concat (map snd (schedule (tasks self) names)))
                   ctx args timeout [] w of
              (Inl f, w') \<Rightarrow> (Rejects (Failed f), w')
            | (Inr rs, w') \<Rightarrow> (Resolves (JArr (report (schedule (tasks self) names) rs)), w'))
       \<and> (\<forall>v w'. pipe (co_pipe invoke) copipe_inh self (JArr names) ctx pipeArg timeout w = (Resolves v, w') \<longrightarrow>
            co_pipe invoke (concat (map snd (schedule (tasks self) names))) ctx pipeArg timeout w =
              (Inr v, w'))
       \<and> (\<forall>f w'. pipe (co_pipe invoke) copipe_inh self (JArr names) ctx pipeArg timeout w =
                     (Rejects (Failed f), w') \<longrightarrow>
            co_pipe invoke (concat (map snd (schedule (tasks self) names))) ctx pipeArg timeout w =
              (Inl f, w'))
       \<and> (\<forall>key label res.
            handlersFor (tasks self) key = []
            \<and> (map_of (tasks self) key \<noteq> None \<or> map_of proto_members key = None) \<longrightarrow>
            run_phase series series_inh (tasks self) key label ctx args timeout res w = (Inr res, w)
            \<and> pipe_phase copipe copipe_inh (tasks self) key ctx pipeArg timeout w = (Inr pipeArg, w))
       \<and> (\<forall>name fn self'. registerTask self name fn = Inr self' \<longrightarrow>
            handlersFor (tasks self') name = handlersFor (tasks self) name @ [fn])"
proof -
  have r: "run s series_inh self (JArr names) ctx args timeout w =
           (case series_sched s (schedule (tasks self) names) ctx args timeout [] w of
              (Inl e, w') \<Rightarrow> (Rejects e, w')
            | (Inr res, w') \<Rightarrow> (Resolves (JArr res), w'))" for s
    by (simp only: run_JArr run_loop_schedule [OF assms(1)])
  have p: "pipe c copipe_inh self (JArr names) ctx pipeArg timeout w =
           (case pipe_sched c (schedule (tasks self) names) ctx pipeArg timeout w of
              (Inl e, w') \<Rightarrow> (Rejects e, w')
            | (Inr v, w') \<Rightarrow> (Resolves v, w'))" for c
    using assms(2,3) by (simp add: pipe_JArr pipe_exec_def pipe_loop_schedule [OF assms(1)])
  have rh: "run (co_series invoke) series_inh self (JArr names) ctx args timeout w =
           (case series_loop invoke (concat (map snd (schedule (tasks self) names)))
                   ctx args timeout [] w of
              (Inl f, w') \<Rightarrow> (Rejects (Failed f), w')
            | (Inr rs, w') \<Rightarrow> (Resolves (JArr (report (schedule (tasks self) names) rs)), w'))"
    unfolding r series_sched_handlers by (simp split: prod.splits sum.splits)
  have ph1: "co_pipe invoke (concat (map snd (schedule (tasks self) names))) ctx pipeArg timeout w =
              (Inr v, w')"
    if "pipe (co_pipe invoke) copipe_inh self (JArr names) ctx pipeArg timeout w = (Resolves v, w')" for v w'
  proof -
    from that have "pipe_sched (co_pipe invoke) (schedule (tasks self) names) ctx pipeArg timeout w
                      = (Inr v, w')"
      unfolding p by (auto split: prod.splits sum.splits)
    from pipe_sched_handlers [OF this] show ?thesis by simp
  qed
  have ph2: "co_pipe invoke (concat (map snd (schedule (tasks self) names))) ctx pipeArg timeout w =
              (Inl f, w')"
    if "pipe (co_pipe invoke) copipe_inh self (JArr names) ctx pipeArg timeout w = (Rejects (Failed f), w')"
    for f w'
  proof -
    from that have "pipe_sched (co_pipe invoke) (schedule (tasks self) names) ctx pipeArg timeout w
                      = (Inl (Failed f), w')"
      unfolding p by (auto split: prod.splits sum.splits)
    from pipe_sched_handlers [OF this] show ?thesis by simp
  qed
  have e: "run_phase series series_inh (tasks self) key label ctx args timeout res w = (Inr res, w)
             \<and> pipe_phase copipe copipe_inh (tasks self) key ctx pipeArg timeout w = (Inr pipeArg, w)"
    if "handlersFor (tasks self) key = []
          \<and> (map_of (tasks self) key \<noteq> None \<or> map_of proto_members key = None)"
    for key label res
    using that by (simp add: empty_phase_skipped)
  show ?thesis
    using r [of series] p [of copipe] rh ph1 ph2 e handlersFor_registerTask [of self]
    by (intro conjI allI impI) (assumption | blast)+
qed

lemma schedule_ab:
  "schedule [(''pre-a'', [2::nat, 3]), (''a'', [4]), (''post-a'', []), (''b'', [5])]
     [JStr ''a'', JStr ''b''] =
     [(JStr ''pre-a'', [2, 3]), (JStr ''a'', [4]), (JStr ''b'', [5])]"
  by (simp add: schedule_def phases_of_def handlersFor_def)

theorem fifo_order_witness:
  "isKnown [(''pre-a'', [2::nat, 3]), (''a'', [4]), (''post-a'', []), (''b'', [5])] (JStr ''a'')
   \<and> isKnown [(''pre-a'', [2::nat, 3]), (''a'', [4]), (''post-a'', []), (''b'', [5])] (JStr ''b'')
   \<and> \<not> is_number (JStr ''v'') \<and> JStr ''v'' \<noteq> JUndefined
   \<and> run (co_series echo) refuse
        \<lparr>tasks = [(''pre-a'', [2::nat, 3]), (''a'', [4]), (''post-a'', []), (''b'', [5])],
         allowedTasks = None\<rparr>
        (JArr [JStr ''a'', JStr ''b'']) JNull (JStr ''x'') JUndefined [] =
       (Resolves (JArr
          [JObj [(''task'', JStr ''pre-a''),
                 (''results'', JArr [JArr [JNum 2, JNull, JStr ''x''], JArr [JNum 3, JNull, JStr ''x'']])],
           JObj [(''task'', JStr ''a''), (''results'', JArr [JArr [JNum 4, JNull, JStr ''x'']])],
           JObj [(''task'', JStr ''b''), (''results'', JArr [JArr [JNum 5, JNull, JStr ''x'']])]]),
        [(2, JNull, JStr ''x''), (3, JNull, JStr ''x''), (4, JNull, JStr ''x''),
         (5, JNull, JStr ''x'')])
   \<and> map fst (snd (pipe (co_pipe echo) refuse
        \<lparr>tasks = [(''pre-a'', [2::nat, 3]), (''a'', [4]), (''post-a'', []), (''b'', [5])],
         allowedTasks = None\<rparr>
        (JArr [JStr ''a'', JStr ''b'']) JNull (JStr ''v'') JUndefined [])) = [2, 3, 4, 5]
   \<and> fst (pipe (co_pipe echo) refuse
        \<lparr>tasks = [(''pre-a'', [2::nat, 3]), (''a'', [4]), (''post-a'', []), (''b'', [5])],
         allowedTasks = None\<rparr>
        (JArr [JStr ''a'', JStr ''b'']) JNull (JStr ''v'') JUndefined []) =
       Resolves (JArr [JNum 5, JNull, JArr [JNum 4, JNull, JArr [JNum 3, JNull,
                   JArr [JNum 2, JNull, JStr ''v'']]]])"
proof -
  let ?ts = "[(''pre-a'', [2::nat, 3]), (''a'', [4]), (''post-a'', []), (''b'', [5])]"
  let ?self = "\<lparr>tasks = ?ts, allowedTasks = None\<rparr>"
  have k: "\<forall>n\<in>set [JStr ''a'', JStr ''b'']. isKnown (tasks ?self) n"
    by (simp add: isKnown_def)
  have n: "\<not> is_number (JStr ''v'')" and u: "JStr ''v'' \<noteq> JUndefined"
    by simp_all
  note t = fifo_order [where series = "co_series echo" and copipe = "co_pipe echo"
      and series_inh = refuse and copipe_inh = refuse
      and invoke = echo and ctx = JNull and args = "JStr ''x''" and timeout = JUndefined
      and w = "[]", OF k n u]
  from t have "run (co_series echo) refuse ?self (JArr [JStr ''a'', JStr ''b'']) JNull (JStr ''x'')
                 JUndefined [] =
        (case series_sched (co_series echo) (schedule (tasks ?self) [JStr ''a'', JStr ''b''])
                JNull (JStr ''x'') JUndefined [] [] of
           (Inl e, w') \<Rightarrow> (Rejects e, w')
         | (Inr res, w') \<Rightarrow> (Resolves (JArr res), w'))"
    by (rule conjunct1)
  then have r: "run (co_series echo) refuse ?self (JArr [JStr ''a'', JStr ''b'']) JNull (JStr ''x'')
                 JUndefined [] =
       (Resolves (JArr
          [JObj [(''task'', JStr ''pre-a''),
                 (''results'', JArr [JArr [JNum 2, JNull, JStr ''x''], JArr [JNum 3, JNull, JStr ''x'']])],
           JObj [(''task'', JStr ''a''), (''results'', JArr [JArr [JNum 4, JNull, JStr ''x'']])],
           JObj [(''task'', JStr ''b''), (''results'', JArr [JArr [JNum 5, JNull, JStr ''x'']])]]),
        [(2, JNull, JStr ''x''), (3, JNull, JStr ''x''), (4, JNull, JStr ''x''),
         (5, JNull, JStr ''x'')])"
    by (simp add: schedule_ab echo_def co_series_def entry_def)
  from t have "pipe (co_pipe echo) refuse ?self (JArr [JStr ''a'', JStr ''b'']) JNull (JStr ''v'')
                 JUndefined [] =
        (case pipe_sched (co_pipe echo) (schedule (tasks ?self) [JStr ''a'', JStr ''b''])
                JNull (JStr ''v'') JUndefined [] of
           (Inl e, w') \<Rightarrow> (Rejects e, w')
         | (Inr v, w') \<Rightarrow> (Resolves v, w'))"
    by (elim conjE)
  then have p: "pipe (co_pipe echo) refuse ?self (JArr [JStr ''a'', JStr ''b'']) JNull (JStr ''v'')
                 JUndefined [] =
       (Resolves (JArr [JNum 5, JNull, JArr [JNum 4, JNull, JArr [JNum 3, JNull,
                   JArr [JNum 2, JNull, JStr ''v'']]]]),
        [(2, JNull, JStr ''v''), (3, JNull, JArr [JNum 2, JNull, JStr ''v'']),
         (4, JNull, JArr [JNum 3, JNull, JArr [JNum 2, JNull, JStr ''v'']]),
         (5, JNull, JArr [JNum 4, JNull, JArr [JNum 3, JNull, JArr [JNum 2, JNull, JStr ''v'']]])])"
    by (simp add: schedule_ab echo_def)
  show ?thesis
    unfolding r p by (simp add: isKnown_def)
qed

end
